theory Spec2Isabelle
  imports Main
begin

section \<open>Data model\<close>

text \<open>
  The server keeps its state in MongoDB collections accessed through Mongoose models.
  A collection is modelled as the list of its documents in insertion order, an
  \<^verbatim>\<open>ObjectId\<close> and a \<^verbatim>\<open>Date\<close> as natural numbers, a \<^verbatim>\<open>Buffer\<close> as a string,
  and a schema path that may be absent as an option.  Of each document the paths are
  kept that the routes below read, compare or use to link documents; the mock feature
  vector, the quality score, the constant confidence of a proposed label and contact
  details are left out.  String-valued enum paths
  (\<^verbatim>\<open>role\<close>, \<^verbatim>\<open>personType\<close>, \<^verbatim>\<open>verificationStatus\<close>) stay strings, as the
  routes compare them; the job status, which the routes only ever write as one of
  three literals, is a datatype.
\<close>

type_synonym oid = nat
type_synonym date = nat

text \<open>\<^verbatim>\<open>models/userModel.js\<close>: the permission flags and the user document.\<close>

record permissions =
  canVerifyFaces :: bool
  canManageUsers :: bool
  canManageAllFaces :: bool
  canViewAllData :: bool

record user =
  u_id :: oid
  u_name :: string
  u_email :: string
  u_password :: string
  u_role :: string
  u_permissions :: permissions

text \<open>\<^verbatim>\<open>models/faceModel.js\<close>: a proposed label and the face document.\<close>

record proposal =
  p_label :: string
  p_proposedBy :: oid
  p_proposedAt :: date

record face =
  f_id :: oid
  f_primaryImage :: string
  f_additionalImages :: "string list"
  f_personType :: string
  f_personId :: oid
  f_active :: bool
  f_verificationStatus :: string
  f_uploadedBy :: "oid option"
  f_verifiedBy :: "oid option"
  f_verificationDate :: "date option"
  f_verificationNote :: "string option"
  f_proposedLabels :: "proposal list"
  f_selectedLabel :: "string option"
  f_createdAt :: date
  f_updatedAt :: date

text \<open>\<^verbatim>\<open>models/employeeModel.js\<close> and \<^verbatim>\<open>models/visitorModel.js\<close>.\<close>

record employee =
  e_id :: oid
  e_name :: string
  e_faceId :: oid
  e_joiningDate :: date

record visitor =
  v_id :: oid
  v_name :: string
  v_faceId :: "oid option"
  v_purpose :: string
  v_createdAt :: date

text \<open>\<^verbatim>\<open>models/extractedFaceModel.js\<close>: clusters and the extraction job.\<close>

record rep_face =
  r_imageUrl :: string
  r_imageData :: "string option"

record crop =
  cr_imageUrl :: string
  cr_imageData :: string

record cluster =
  c_clusterId :: string
  c_faces :: "crop list"
  c_representativeFace :: "rep_face option"
  c_proposedLabels :: "proposal list"
  c_selectedLabel :: "string option"

datatype job_status = Processing | Completed | Failed

record job =
  j_id :: oid
  j_fileId :: string
  j_fileName :: string
  j_fileType :: string
  j_uploadedBy :: oid
  j_facesCount :: nat
  j_clusters :: "cluster list"
  j_status :: job_status
  j_processingMessage :: string
  j_createdAt :: date
  j_updatedAt :: date
  j_isLabeled :: bool
  j_sessionId :: string

record db =
  users :: "user list"
  employees :: "employee list"
  visitors :: "visitor list"
  faces :: "face list"
  jobs :: "job list"

text \<open>
  The outcomes of a route other than success: the HTTP error responses, named after
  the error taxonomy (400 with its message, 403, 404, and 500 for anything thrown).
\<close>

datatype error =
  InvalidInput
  | InvalidStatus
  | MissingLabel
  | MissingPersonType
  | UserExists
  | Forbidden
  | NotFound
  | ServerError

section \<open>JavaScript and Mongoose primitives\<close>

text \<open>
  A request field is a string option; JavaScript's \<^verbatim>\<open>!x\<close> holds of an absent field
  and of the empty string.
\<close>

fun falsy :: "string option \<Rightarrow> bool" where
  "falsy None = True"
| "falsy (Some s) = (s = [])"

text \<open>\<^verbatim>\<open>Array.prototype.findIndex\<close>, with \<^verbatim>\<open>-1\<close> as \<open>None\<close>.\<close>

fun findIndex :: "('a \<Rightarrow> bool) \<Rightarrow> 'a list \<Rightarrow> nat option" where
  "findIndex P [] = None"
| "findIndex P (x # xs) =
     (if P x then Some 0 else (case findIndex P xs of None \<Rightarrow> None | Some i \<Rightarrow> Some (Suc i)))"

text \<open>
  \<^verbatim>\<open>Model.findById\<close> returns the document with the given \<^verbatim>\<open>_id\<close>; \<^verbatim>\<open>doc.save()\<close> of
  a document that was loaded from the collection writes it back under its \<^verbatim>\<open>_id\<close>.
\<close>

definition findFaceById :: "face list \<Rightarrow> oid \<Rightarrow> face option" where
  "findFaceById fs i = find (\<lambda>f. f_id f = i) fs"

definition saveFace :: "face \<Rightarrow> face list \<Rightarrow> face list" where
  "saveFace f fs = map (\<lambda>x. if f_id x = f_id f then f else x) fs"

definition findJobById :: "job list \<Rightarrow> oid \<Rightarrow> job option" where
  "findJobById js i = find (\<lambda>j. j_id j = i) js"

definition saveJob :: "job \<Rightarrow> job list \<Rightarrow> job list" where
  "saveJob j js = map (\<lambda>x. if j_id x = j_id j then j else x) js"

section \<open>Access control (\<^verbatim>\<open>utils/helpers.js\<close>)\<close>

definition canUserAccessFace :: "user \<Rightarrow> face \<Rightarrow> bool" where
  "canUserAccessFace u f =
     (if u_role u = ''admin'' \<or> u_role u = ''manager'' \<or> canViewAllData (u_permissions u)
      then True
      else if (case f_uploadedBy f of None \<Rightarrow> False | Some i \<Rightarrow> i = u_id u)
      then True
      else False)"

section \<open>Label proposals\<close>

text \<open>
  Both proposal routes look for the caller's entry in \<^verbatim>\<open>proposedLabels\<close>; an entry that
  exists has its label and timestamp overwritten where it stands, otherwise a new entry
  is pushed at the end.
\<close>

definition upsertProposal :: "oid \<Rightarrow> string \<Rightarrow> date \<Rightarrow> proposal list \<Rightarrow> proposal list" where
  "upsertProposal uid l now ps =
     (case findIndex (\<lambda>p. p_proposedBy p = uid) ps of
        Some i \<Rightarrow> list_update ps i ((ps ! i)\<lparr>p_label := l, p_proposedAt := now\<rparr>)
      | None \<Rightarrow> ps @ [\<lparr>p_label = l, p_proposedBy = uid, p_proposedAt = now\<rparr>])"

text \<open>
  \<^verbatim>\<open>POST /faces/:id/propose-label\<close>, behind \<^verbatim>\<open>protect\<close>, which supplies the caller.
  A route returns its response and the database the next request finds; each route
  runs to its end before the next one starts.
\<close>

definition proposeFaceLabel ::
  "db \<Rightarrow> date \<Rightarrow> user \<Rightarrow> oid \<Rightarrow> string option \<Rightarrow> (error + face) \<times> db" where
  "proposeFaceLabel d now u fid label =
     (if falsy label then (Inl InvalidInput, d)
      else case findFaceById (faces d) fid of
        None \<Rightarrow> (Inl NotFound, d)
      | Some f \<Rightarrow>
          if \<not> canUserAccessFace u f \<and> \<not> canVerifyFaces (u_permissions u)
          then (Inl Forbidden, d)
          else
            let f' = f\<lparr>f_proposedLabels :=
                         upsertProposal (u_id u) (the label) now (f_proposedLabels f),
                       f_updatedAt := now\<rparr>
            in (Inr f', d\<lparr>faces := saveFace f' (faces d)\<rparr>))"

text \<open>
  \<^verbatim>\<open>POST /faces/extract/:id/cluster/:clusterId/label\<close>.  The response carries the
  cluster as it now stands.
\<close>

definition labelCluster ::
  "db \<Rightarrow> date \<Rightarrow> user \<Rightarrow> oid \<Rightarrow> string \<Rightarrow> string option \<Rightarrow> (error + cluster) \<times> db" where
  "labelCluster d now u jid cid label =
     (if falsy label then (Inl InvalidInput, d)
      else case findJobById (jobs d) jid of
        None \<Rightarrow> (Inl NotFound, d)
      | Some j \<Rightarrow>
          if j_uploadedBy j \<noteq> u_id u \<and> \<not> canViewAllData (u_permissions u)
             \<and> u_role u \<noteq> ''admin'' \<and> u_role u \<noteq> ''manager''
          then (Inl Forbidden, d)
          else (case findIndex (\<lambda>c. c_clusterId c = cid) (j_clusters j) of
            None \<Rightarrow> (Inl NotFound, d)
          | Some ci \<Rightarrow>
              let c = j_clusters j ! ci;
                  c1 = c\<lparr>c_proposedLabels :=
                          upsertProposal (u_id u) (the label) now (c_proposedLabels c)\<rparr>;
                  c2 = (if u_role u = ''admin'' \<or> u_role u = ''manager''
                           \<or> canVerifyFaces (u_permissions u)
                        then c1\<lparr>c_selectedLabel := label\<rparr> else c1);
                  j' = j\<lparr>j_clusters := list_update (j_clusters j) ci c2, j_updatedAt := now\<rparr>
              in (Inr c2, d\<lparr>jobs := saveJob j' (jobs d)\<rparr>)))"

section \<open>Transactions\<close>

text \<open>
  \<^verbatim>\<open>mongoose.startSession()\<close> and the transaction calls.  A session holds the
  committed database and, while a transaction is in progress, the working copy that
  reads and writes carrying \<^verbatim>\<open>{ session }\<close> see.  \<^verbatim>\<open>commitTransaction\<close> installs
  the working copy, \<^verbatim>\<open>abortTransaction\<close> drops it, and \<^verbatim>\<open>endSession\<close> drops a
  transaction that is still in progress.
\<close>

record session =
  s_committed :: db
  s_working :: "db option"

definition startSession :: "db \<Rightarrow> session" where
  "startSession d = \<lparr>s_committed = d, s_working = None\<rparr>"

definition startTransaction :: "session \<Rightarrow> session" where
  "startTransaction s = s\<lparr>s_working := Some (s_committed s)\<rparr>"

definition commitTransaction :: "session \<Rightarrow> session" where
  "commitTransaction s =
     (case s_working s of None \<Rightarrow> s | Some w \<Rightarrow> \<lparr>s_committed = w, s_working = None\<rparr>)"

definition abortTransaction :: "session \<Rightarrow> session" where
  "abortTransaction s = s\<lparr>s_working := None\<rparr>"

definition endSession :: "session \<Rightarrow> db" where
  "endSession s = s_committed s"

text \<open>
  What a query with \<^verbatim>\<open>.session(session)\<close> reads, and a write with \<^verbatim>\<open>{ session }\<close>.
  Queries are taken to succeed.
\<close>

definition txDb :: "session \<Rightarrow> db" where
  "txDb s = (case s_working s of None \<Rightarrow> s_committed s | Some w \<Rightarrow> w)"

definition txWrite :: "(db \<Rightarrow> db) \<Rightarrow> session \<Rightarrow> session" where
  "txWrite g s =
     (case s_working s of None \<Rightarrow> s\<lparr>s_committed := g (s_committed s)\<rparr>
      | Some w \<Rightarrow> s\<lparr>s_working := Some (g w)\<rparr>)"

text \<open>
  Any write may be rejected by the store (a collection validator, a unique index, a
  lost connection), which the driver reports by throwing.  The writes of the two
  promotion routes are named, those of the completion loop by the index of the cluster
  they belong to; so are the two updates of the extraction route, the one in its
  \<^verbatim>\<open>try\<close> block (0) and the one in its \<^verbatim>\<open>catch\<close> block (1).  A predicate on these
  names says which of them throw.
\<close>

datatype store_write =
  EmployeeSave
  | VisitorSave nat
  | FaceSave nat
  | VisitorUpdate nat
  | JobSave
  | CommitTransaction
  | JobUpdate nat

text \<open>
  How the body of a \<^verbatim>\<open>try\<close> block ends: it runs to its end, it returns an error
  response early, or it throws.
\<close>

datatype 'a flow = Done 'a | Respond error | Thrown

text \<open>
  \<^verbatim>\<open>String.prototype.trim\<close> on ASCII white space, the setter behind \<^verbatim>\<open>trim: true\<close> of
  the \<^verbatim>\<open>name\<close> paths; Mongoose runs it on documents and on query filters alike.
\<close>

definition isSpace :: "char \<Rightarrow> bool" where
  "isSpace c = (c \<in> set [CHR '' '', CHR 0x09, CHR 0x0A, CHR 0x0B, CHR 0x0C, CHR 0x0D])"

definition trim :: "string \<Rightarrow> string" where
  "trim s = rev (dropWhile isSpace (rev (dropWhile isSpace s)))"

definition findEmployeeById :: "employee list \<Rightarrow> oid \<Rightarrow> employee option" where
  "findEmployeeById es i = find (\<lambda>e. e_id e = i) es"

definition findVisitorById :: "visitor list \<Rightarrow> oid \<Rightarrow> visitor option" where
  "findVisitorById vs i = find (\<lambda>v. v_id v = i) vs"

definition findEmployeeByName :: "employee list \<Rightarrow> string \<Rightarrow> employee option" where
  "findEmployeeByName es l = find (\<lambda>e. e_name e = trim l) es"

definition findVisitorByName :: "visitor list \<Rightarrow> string \<Rightarrow> visitor option" where
  "findVisitorByName vs l = find (\<lambda>v. v_name v = trim l) vs"

text \<open>\<^verbatim>\<open>Visitor.exists({ name, faceId: { $ne: null } })\<close>.\<close>

definition visitorExistsWithFace :: "visitor list \<Rightarrow> string \<Rightarrow> bool" where
  "visitorExistsWithFace vs l = list_ex (\<lambda>v. v_name v = trim l \<and> v_faceId v \<noteq> None) vs"

text \<open>\<^verbatim>\<open>Visitor.findByIdAndUpdate(personId, { faceId })\<close>.\<close>

definition updateVisitorFace :: "oid \<Rightarrow> oid \<Rightarrow> visitor list \<Rightarrow> visitor list" where
  "updateVisitorFace pid fid vs =
     (case findIndex (\<lambda>v. v_id v = pid) vs of
        None \<Rightarrow> vs
      | Some i \<Rightarrow> list_update vs i ((vs ! i)\<lparr>v_faceId := Some fid\<rparr>))"

section \<open>Verification (\<^verbatim>\<open>POST /faces/:id/verify\<close>)\<close>

record verify_request =
  vr_status :: "string option"
  vr_selectedLabel :: "string option"
  vr_personType :: "string option"
  vr_personId :: "oid option"
  vr_note :: "string option"
  vr_createNewPerson :: bool
  vr_purpose :: "string option"

definition validPersonType :: "string option \<Rightarrow> bool" where
  "validPersonType t = (\<not> falsy t \<and> the t \<in> set [''employee'', ''visitor''])"

text \<open>The end of the \<^verbatim>\<open>try\<close> block: the face is saved and the transaction committed.\<close>

definition verifyFinish :: "(store_write \<Rightarrow> bool) \<Rightarrow> face \<Rightarrow> session \<Rightarrow> face flow \<times> session" where
  "verifyFinish F f s =
     (if F (FaceSave 0) then (Thrown, s)
      else let s1 = txWrite (\<lambda>w. w\<lparr>faces := saveFace f (faces w)\<rparr>) s
           in if F CommitTransaction then (Thrown, s1) else (Done f, commitTransaction s1))"

text \<open>
  The \<^verbatim>\<open>try\<close> block.  \<open>fresh\<close> is the \<^verbatim>\<open>_id\<close> a newly constructed person document
  receives.  A person whose name is empty after trimming fails schema validation in
  \<^verbatim>\<open>save\<close>, which throws.
\<close>

definition verifyTry ::
  "(store_write \<Rightarrow> bool) \<Rightarrow> oid \<Rightarrow> date \<Rightarrow> user \<Rightarrow> oid \<Rightarrow> verify_request \<Rightarrow> session
     \<Rightarrow> face flow \<times> session" where
  "verifyTry F fresh now u fid rq s =
     (if falsy (vr_status rq) \<or> the (vr_status rq) \<notin> set [''verified'', ''rejected'']
      then (Respond InvalidStatus, s)
      else case findFaceById (faces (txDb s)) fid of
        None \<Rightarrow> (Respond NotFound, s)
      | Some face0 \<Rightarrow>
          let f1 = face0\<lparr>f_verificationStatus := the (vr_status rq),
                         f_verifiedBy := Some (u_id u),
                         f_verificationDate := Some now,
                         f_verificationNote :=
                           Some (if falsy (vr_note rq) then [] else the (vr_note rq)),
                         f_updatedAt := now\<rparr>
          in
          if the (vr_status rq) = ''verified'' then
            if falsy (vr_selectedLabel rq) then (Respond MissingLabel, s)
            else
              let l = the (vr_selectedLabel rq);
                  f2 = f1\<lparr>f_selectedLabel := Some l\<rparr>
              in
              if vr_createNewPerson rq then
                if \<not> validPersonType (vr_personType rq) then (Respond MissingPersonType, s)
                else if the (vr_personType rq) = ''employee'' then
                  if trim l = [] \<or> F EmployeeSave then (Thrown, s)
                  else
                    let e = \<lparr>e_id = fresh, e_name = trim l, e_faceId = f_id f2,
                             e_joiningDate = now\<rparr>;
                        s1 = txWrite (\<lambda>w. w\<lparr>employees := employees w @ [e]\<rparr>) s
                    in verifyFinish F (f2\<lparr>f_personType := ''employee'', f_personId := fresh\<rparr>) s1
                else
                  if trim l = [] \<or> F (VisitorSave 0) then (Thrown, s)
                  else
                    let v = \<lparr>v_id = fresh, v_name = trim l, v_faceId = Some (f_id f2),
                             v_purpose = (if falsy (vr_purpose rq) then ''General Visit''
                                          else the (vr_purpose rq)),
                             v_createdAt = now\<rparr>;
                        s1 = txWrite (\<lambda>w. w\<lparr>visitors := visitors w @ [v]\<rparr>) s
                    in verifyFinish F (f2\<lparr>f_personType := ''visitor'', f_personId := fresh\<rparr>) s1
              else (case vr_personId rq of
                Some pid \<Rightarrow>
                  if \<not> validPersonType (vr_personType rq) then (Respond MissingPersonType, s)
                  else if (if the (vr_personType rq) = ''employee''
                           then findEmployeeById (employees (txDb s)) pid = None
                           else findVisitorById (visitors (txDb s)) pid = None)
                  then (Respond NotFound, s)
                  else verifyFinish F
                         (f2\<lparr>f_personType := the (vr_personType rq), f_personId := pid\<rparr>) s
              | None \<Rightarrow> verifyFinish F f2 s)
          else verifyFinish F f1 s)"

text \<open>
  The route: \<^verbatim>\<open>checkPermission('canVerifyFaces')\<close>, then the session, the \<^verbatim>\<open>try\<close>
  block, \<^verbatim>\<open>catch\<close> (abort and answer 500) and \<^verbatim>\<open>finally\<close> (end the session).  The
  result is the response and the database the next request finds.
\<close>

definition verifyFace ::
  "(store_write \<Rightarrow> bool) \<Rightarrow> db \<Rightarrow> oid \<Rightarrow> date \<Rightarrow> user \<Rightarrow> oid \<Rightarrow> verify_request
     \<Rightarrow> (error + face) \<times> db" where
  "verifyFace F d fresh now u fid rq =
     (if \<not> canVerifyFaces (u_permissions u) then (Inl Forbidden, d)
      else
        case verifyTry F fresh now u fid rq (startTransaction (startSession d)) of
          (Done f, s) \<Rightarrow> (Inr f, endSession s)
        | (Respond e, s) \<Rightarrow> (Inl e, endSession s)
        | (Thrown, s) \<Rightarrow> (Inl ServerError, endSession (abortTransaction s)))"

section \<open>Completion of labelling (\<^verbatim>\<open>POST /faces/extract/:id/complete\<close>)\<close>

definition canComplete :: "user \<Rightarrow> job \<Rightarrow> bool" where
  "canComplete u j =
     (j_uploadedBy j = u_id u \<or> u_role u = ''admin'' \<or> u_role u = ''manager''
      \<or> canVerifyFaces (u_permissions u))"

text \<open>The second \<^verbatim>\<open>continue\<close> guard of the loop: no representative crop with image data.\<close>

definition noRepresentative :: "cluster \<Rightarrow> bool" where
  "noRepresentative c =
     (case c_representativeFace c of None \<Rightarrow> True | Some r \<Rightarrow> r_imageData r = None)"

text \<open>The face record built for a cluster; \<open>i\<close> is its new \<^verbatim>\<open>_id\<close>.\<close>

definition newFace :: "oid \<Rightarrow> date \<Rightarrow> user \<Rightarrow> cluster \<Rightarrow> string \<Rightarrow> oid \<Rightarrow> face" where
  "newFace i now u c ptype pid =
     \<lparr>f_id = i,
      f_primaryImage = the (r_imageData (the (c_representativeFace c))),
      f_additionalImages = map cr_imageData (take 4 (c_faces c)),
      f_personType = ptype,
      f_personId = pid,
      f_active = True,
      f_verificationStatus =
        (if canVerifyFaces (u_permissions u) then ''verified'' else ''unverified''),
      f_uploadedBy = Some (u_id u),
      f_verifiedBy = None,
      f_verificationDate = None,
      f_verificationNote = None,
      f_proposedLabels =
        [\<lparr>p_label = the (c_selectedLabel c), p_proposedBy = u_id u, p_proposedAt = now\<rparr>],
      f_selectedLabel = c_selectedLabel c,
      f_createdAt = now,
      f_updatedAt = now\<rparr>"

text \<open>
  The second half of a loop iteration, once \<^verbatim>\<open>personType\<close> and \<^verbatim>\<open>personId\<close> are
  known: the face is saved, and the visitor's \<^verbatim>\<open>faceId\<close> is set when no visitor of that
  name has one.  \<open>k\<close> is the index of the cluster and \<open>n\<close> the next \<^verbatim>\<open>ObjectId\<close>;
  the result says whether the iteration ran without throwing.
\<close>

definition promoteCluster ::
  "(store_write \<Rightarrow> bool) \<Rightarrow> nat \<Rightarrow> date \<Rightarrow> user \<Rightarrow> cluster \<Rightarrow> string \<Rightarrow> oid
     \<Rightarrow> session \<Rightarrow> oid \<Rightarrow> bool \<times> session \<times> oid" where
  "promoteCluster F k now u c ptype pid s n =
     (if F (FaceSave k) then (False, s, Suc n)
      else
        let f = newFace n now u c ptype pid;
            s1 = txWrite (\<lambda>w. w\<lparr>faces := faces w @ [f]\<rparr>) s
        in
        if ptype = ''visitor''
           \<and> \<not> visitorExistsWithFace (visitors (txDb s1)) (the (c_selectedLabel c))
        then
          if F (VisitorUpdate k) then (False, s1, Suc n)
          else (True,
                txWrite (\<lambda>w. w\<lparr>visitors := updateVisitorFace pid (f_id f) (visitors w)\<rparr>) s1,
                Suc n)
        else (True, s1, Suc n))"

text \<open>
  The first half: \<^verbatim>\<open>personId\<close> starts as a new \<^verbatim>\<open>ObjectId\<close>; the label is looked up
  among the employees, then among the visitors; when neither has it a visitor is
  created whose \<^verbatim>\<open>faceId\<close> is another new \<^verbatim>\<open>ObjectId\<close>.
\<close>

definition completeCluster ::
  "(store_write \<Rightarrow> bool) \<Rightarrow> nat \<Rightarrow> date \<Rightarrow> user \<Rightarrow> cluster \<Rightarrow> session \<Rightarrow> oid
     \<Rightarrow> bool \<times> session \<times> oid" where
  "completeCluster F k now u c s n =
     (let l = the (c_selectedLabel c); n1 = Suc n
      in case findEmployeeByName (employees (txDb s)) l of
        Some e \<Rightarrow> promoteCluster F k now u c ''employee'' (e_id e) s n1
      | None \<Rightarrow>
          (case findVisitorByName (visitors (txDb s)) l of
             Some v \<Rightarrow> promoteCluster F k now u c ''visitor'' (v_id v) s n1
           | None \<Rightarrow>
               let v = \<lparr>v_id = Suc n1, v_name = trim l, v_faceId = Some n1,
                        v_purpose = ''Created from face extraction'', v_createdAt = now\<rparr>
               in
               if trim l = [] \<or> F (VisitorSave k) then (False, s, Suc (Suc n1))
               else promoteCluster F k now u c ''visitor'' (v_id v)
                      (txWrite (\<lambda>w. w\<lparr>visitors := visitors w @ [v]\<rparr>) s) (Suc (Suc n1))))"

fun completeLoop ::
  "(store_write \<Rightarrow> bool) \<Rightarrow> date \<Rightarrow> user \<Rightarrow> nat \<Rightarrow> cluster list \<Rightarrow> session \<Rightarrow> oid
     \<Rightarrow> bool \<times> session \<times> oid" where
  "completeLoop F now u k [] s n = (True, s, n)"
| "completeLoop F now u k (c # cs) s n =
     (if falsy (c_selectedLabel c) then completeLoop F now u (Suc k) cs s n
      else if noRepresentative c then completeLoop F now u (Suc k) cs s n
      else
        (case completeCluster F k now u c s n of
           (ok, s1, n1) \<Rightarrow>
             if ok then completeLoop F now u (Suc k) cs s1 n1 else (False, s1, n1)))"

text \<open>
  The route.  The job is read before the session starts; the inner \<^verbatim>\<open>catch\<close> aborts
  the transaction and rethrows to the outer one, which answers 500.  The result is the
  response, the database the next request finds, and the next \<^verbatim>\<open>ObjectId\<close>.
\<close>

definition complete ::
  "(store_write \<Rightarrow> bool) \<Rightarrow> db \<Rightarrow> oid \<Rightarrow> date \<Rightarrow> user \<Rightarrow> oid
     \<Rightarrow> (error + (oid \<times> bool)) \<times> db \<times> oid" where
  "complete F d n now u jid =
     (case findJobById (jobs d) jid of
        None \<Rightarrow> (Inl NotFound, d, n)
      | Some j \<Rightarrow>
          if \<not> canComplete u j then (Inl Forbidden, d, n)
          else
            (case completeLoop F now u 0 (j_clusters j) (startTransaction (startSession d)) n of
               (ok, s1, n1) \<Rightarrow>
                 if \<not> ok \<or> F JobSave then (Inl ServerError, endSession (abortTransaction s1), n1)
                 else
                   let j' = j\<lparr>j_isLabeled := True, j_updatedAt := now\<rparr>;
                       s2 = txWrite (\<lambda>w. w\<lparr>jobs := saveJob j' (jobs w)\<rparr>) s1
                   in
                   if F CommitTransaction
                   then (Inl ServerError, endSession (abortTransaction s2), n1)
                   else (Inr (j_id j, True), endSession (commitTransaction s2), n1)))"

section \<open>Extraction jobs (\<^verbatim>\<open>POST /faces/extract\<close>)\<close>

text \<open>Template literals print numbers in decimal.\<close>

definition digitChar :: "nat \<Rightarrow> char" where
  "digitChar n = char_of (48 + n)"

fun showNat :: "nat \<Rightarrow> string" where
  "showNat n = (if n < 10 then [digitChar n] else showNat (n div 10) @ [digitChar (n mod 10)])"

declare showNat.simps [simp del]

text \<open>
  The uploaded file as \<^verbatim>\<open>multer\<close> hands it over, with the kind its filter recorded in
  \<^verbatim>\<open>req.fileType\<close>.
\<close>

record upload =
  up_originalname :: string
  up_buffer :: string
  up_fileType :: string

text \<open>
  The first half of the route: the job is created in \<^verbatim>\<open>processing\<close> and saved, and the
  202 response is sent.  The two new \<^verbatim>\<open>ObjectId\<close>s are the file id (printed here in
  decimal) and the \<^verbatim>\<open>_id\<close> of the job.  \<^verbatim>\<open>save\<close> validates the schema: the file name is
  required and the file type is one of the two kinds.
\<close>

definition startJob ::
  "db \<Rightarrow> oid \<Rightarrow> oid \<Rightarrow> date \<Rightarrow> user \<Rightarrow> upload option \<Rightarrow> string option
     \<Rightarrow> (error + job) \<times> db" where
  "startJob d fileOid jobOid now u file sid =
     (case file of
        None \<Rightarrow> (Inl InvalidInput, d)
      | Some f \<Rightarrow>
          let fileId = showNat fileOid;
              j = \<lparr>j_id = jobOid, j_fileId = fileId, j_fileName = up_originalname f,
                   j_fileType = up_fileType f, j_uploadedBy = u_id u, j_facesCount = 0,
                   j_clusters = [], j_status = Processing,
                   j_processingMessage = ''Extracting faces from uploaded file...'',
                   j_createdAt = now, j_updatedAt = now, j_isLabeled = False,
                   j_sessionId = (if falsy sid then fileId else the sid)\<rparr>
          in if up_originalname f = [] \<or> up_fileType f \<notin> set [''image'', ''video'']
             then (Inl ServerError, d)
             else (Inr j, d\<lparr>jobs := jobs d @ [j]\<rparr>))"

text \<open>
  \<^verbatim>\<open>utils/faceProcessingBridge.js\<close>.  The runner script prints one JSON object; its
  clusters map a cluster id to the images of its faces.
\<close>

record provider_result =
  pr_success :: bool
  pr_is_valid :: bool
  pr_face_count :: nat
  pr_clusters :: "(string \<times> string list) list"
  pr_message :: "string option"

text \<open>
  How the spawned Python process ends: it closes with an exit code, its standard
  output (the parsed result, or the message of the \<^verbatim>\<open>JSON.parse\<close> error) and its
  standard error.  A process that never closes is \<open>None\<close>.
\<close>

datatype process_end = Closed nat "string + provider_result" string

datatype 'a settled = Resolved 'a | Rejected string

text \<open>
  \<^verbatim>\<open>_runPythonCommand\<close>: the promise is settled in the \<^verbatim>\<open>close\<close> handler and nowhere
  else, so it stays pending (\<open>None\<close>) for as long as the process does not close.
  \<^verbatim>\<open>validateFaceUpload\<close> awaits it and rethrows.
\<close>

definition runPythonCommand :: "process_end option \<Rightarrow> provider_result settled option" where
  "runPythonCommand p =
     (case p of
        None \<Rightarrow> None
      | Some (Closed code out err) \<Rightarrow>
          if code \<noteq> 0
          then Some (Rejected (''Python process exited with code '' @ showNat code @ '': '' @ err))
          else (case out of
                  Inl msg \<Rightarrow> Some (Rejected (''Failed to parse Python output: '' @ msg))
                | Inr r \<Rightarrow> Some (Resolved r)))"

definition validateFaceUpload :: "process_end option \<Rightarrow> provider_result settled option" where
  "validateFaceUpload p = runPythonCommand p"

text \<open>\<^verbatim>\<open>Model.findByIdAndUpdate\<close> on the jobs.\<close>

definition updateJob :: "oid \<Rightarrow> (job \<Rightarrow> job) \<Rightarrow> job list \<Rightarrow> job list" where
  "updateJob i g js =
     (case findIndex (\<lambda>j. j_id j = i) js of
        None \<Rightarrow> js
      | Some k \<Rightarrow> list_update js k (g (js ! k)))"

text \<open>One cluster of the result: its first face is the representative.\<close>

definition buildCluster :: "string \<Rightarrow> string \<times> string list \<Rightarrow> cluster" where
  "buildCluster fileId e =
     (case e of (cid, imgs) \<Rightarrow>
        \<lparr>c_clusterId = cid,
         c_faces = map (\<lambda>(i, img).
                      \<lparr>cr_imageUrl = ''face_'' @ fileId @ ''_'' @ cid @ ''_'' @ showNat i @ ''.jpg'',
                       cr_imageData = img\<rparr>)
                    (enumerate 0 imgs),
         c_representativeFace =
           (if length imgs > 0
            then Some \<lparr>r_imageUrl = ''face_'' @ fileId @ ''_'' @ cid @ ''_representative.jpg'',
                       r_imageData = Some (hd imgs)\<rparr>
            else None),
         c_proposedLabels = [],
         c_selectedLabel = None\<rparr>)"

text \<open>The message of an error thrown by the store.\<close>

definition storeError :: string where
  "storeError = ''write failed''"

text \<open>
  The second half of the route, from the point where the awaited provider call has
  settled; \<open>j\<close> is the job as the first half created it.  A rejected call, and an
  update that throws in the \<^verbatim>\<open>try\<close> block, lead to the \<^verbatim>\<open>catch\<close> block and its update.
\<close>

definition catchUpdate :: "(store_write \<Rightarrow> bool) \<Rightarrow> date \<Rightarrow> job \<Rightarrow> string \<Rightarrow> job list \<Rightarrow> job list" where
  "catchUpdate F now j msg js =
     (if F (JobUpdate 1) then js
      else updateJob (j_id j)
             (\<lambda>x. x\<lparr>j_status := Failed,
                     j_processingMessage := ''Error processing file: '' @ msg,
                     j_updatedAt := now\<rparr>) js)"

definition tryUpdate ::
  "(store_write \<Rightarrow> bool) \<Rightarrow> date \<Rightarrow> job \<Rightarrow> (job \<Rightarrow> job) \<Rightarrow> job list \<Rightarrow> job list" where
  "tryUpdate F now j g js =
     (if F (JobUpdate 0) then catchUpdate F now j storeError js else updateJob (j_id j) g js)"

definition continuation ::
  "(store_write \<Rightarrow> bool) \<Rightarrow> date \<Rightarrow> job \<Rightarrow> provider_result settled \<Rightarrow> job list \<Rightarrow> job list" where
  "continuation F now j out js =
     (case out of
        Rejected msg \<Rightarrow> catchUpdate F now j msg js
      | Resolved r \<Rightarrow>
          if \<not> pr_success r then
            tryUpdate F now j
              (\<lambda>x. x\<lparr>j_status := Failed,
                      j_processingMessage :=
                        (if falsy (pr_message r) then ''Failed to process the file''
                         else the (pr_message r))\<rparr>) js
          else if \<not> pr_is_valid r \<or> pr_face_count r = 0 then
            tryUpdate F now j
              (\<lambda>x. x\<lparr>j_status := Failed,
                      j_processingMessage :=
                        (if falsy (pr_message r)
                         then ''No human faces detected in the uploaded file''
                         else the (pr_message r))\<rparr>) js
          else
            tryUpdate F now j
              (\<lambda>x. x\<lparr>j_status := Completed,
                      j_processingMessage :=
                        ''Successfully extracted '' @ showNat (pr_face_count r)
                          @ '' faces from '' @ j_fileType j,
                      j_facesCount := pr_face_count r,
                      j_clusters := map (buildCluster (j_fileId j)) (pr_clusters r),
                      j_updatedAt := now\<rparr>) js)"

text \<open>
  The background part as a whole: it writes to the jobs once the provider call has
  settled, and not at all (\<open>None\<close>) while the call is pending.
\<close>

definition extractBackground ::
  "(store_write \<Rightarrow> bool) \<Rightarrow> date \<Rightarrow> job \<Rightarrow> process_end option \<Rightarrow> job list
     \<Rightarrow> job list option" where
  "extractBackground F now j p js =
     (case validateFaceUpload p of
        None \<Rightarrow> None
      | Some out \<Rightarrow> Some (continuation F now j out js))"

section \<open>Registration (\<^verbatim>\<open>POST /auth/register\<close>)\<close>

text \<open>
  The \<^verbatim>\<open>match\<close> validator of the email path tests a regular expression anchored at
  both ends.  Regular expressions over character classes, matched by derivatives.
\<close>

datatype rexp = Zero | One | Cls "char list" | Seq rexp rexp | Alt rexp rexp | Star rexp

fun nullable :: "rexp \<Rightarrow> bool" where
  "nullable Zero = False"
| "nullable One = True"
| "nullable (Cls cs) = False"
| "nullable (Seq r s) = (nullable r \<and> nullable s)"
| "nullable (Alt r s) = (nullable r \<or> nullable s)"
| "nullable (Star r) = True"

fun deriv :: "char \<Rightarrow> rexp \<Rightarrow> rexp" where
  "deriv c Zero = Zero"
| "deriv c One = Zero"
| "deriv c (Cls cs) = (if c \<in> set cs then One else Zero)"
| "deriv c (Seq r s) =
     (if nullable r then Alt (Seq (deriv c r) s) (deriv c s) else Seq (deriv c r) s)"
| "deriv c (Alt r s) = Alt (deriv c r) (deriv c s)"
| "deriv c (Star r) = Seq (deriv c r) (Star r)"

definition matches :: "rexp \<Rightarrow> string \<Rightarrow> bool" where
  "matches r s = nullable (foldl (\<lambda>r c. deriv c r) r s)"

text \<open>
  \<^verbatim>\<open>/^\w+([\.-]?\w+)*@\w+([\.-]?\w+)*(\.\w{2,3})+$/\<close>, where \<^verbatim>\<open>\w\<close> is a letter, a digit
  or an underscore.
\<close>

definition wordChar :: rexp where
  "wordChar = Cls ''abcdefghijklmnopqrstuvwxyzABCDEFGHIJKLMNOPQRSTUVWXYZ0123456789_''"

definition plus1 :: "rexp \<Rightarrow> rexp" where
  "plus1 r = Seq r (Star r)"

definition opt :: "rexp \<Rightarrow> rexp" where
  "opt r = Alt One r"

definition dottedWords :: rexp where
  "dottedWords = Seq (plus1 wordChar) (Star (Seq (opt (Cls ''.-'')) (plus1 wordChar)))"

definition emailRegex :: rexp where
  "emailRegex =
     Seq dottedWords
       (Seq (Cls ''@'')
          (Seq dottedWords
             (plus1 (Seq (Cls ''.'') (Seq wordChar (Seq wordChar (opt wordChar)))))))"






section \<open>The server as a transition system\<close>

text \<open>
  The state of the server is the database together with the extraction requests whose
  background part is still waiting for the provider, each with the job it created.
  A step is one route run to its end, or the background part of one waiting request.
  The routes of the server that are not among the steps do not write to the extraction
  jobs.  A new \<^verbatim>\<open>ObjectId\<close> differs from the ids in use.
\<close>

record system =
  sys_db :: db
  sys_awaiting :: "job list"

inductive step :: "system \<Rightarrow> system \<Rightarrow> bool" where
  step_start:
    "startJob (sys_db s) fileOid jobOid now u file sid = (Inr j, d')
     \<Longrightarrow> jobOid \<notin> set (map j_id (jobs (sys_db s)))
     \<Longrightarrow> step s \<lparr>sys_db = d', sys_awaiting = j # sys_awaiting s\<rparr>"
| step_settle:
    "j \<in> set (sys_awaiting s)
     \<Longrightarrow> extractBackground F now j p (jobs (sys_db s)) = Some js'
     \<Longrightarrow> step s \<lparr>sys_db = (sys_db s)\<lparr>jobs := js'\<rparr>, sys_awaiting = remove1 j (sys_awaiting s)\<rparr>"
| step_label:
    "labelCluster (sys_db s) now u jid cid l = (r, d')
     \<Longrightarrow> step s (s\<lparr>sys_db := d'\<rparr>)"
| step_completion:
    "complete F (sys_db s) n now u jid = (r, d', n')
     \<Longrightarrow> step s (s\<lparr>sys_db := d'\<rparr>)"
| step_propose:
    "proposeFaceLabel (sys_db s) now u fid l = (r, d')
     \<Longrightarrow> step s (s\<lparr>sys_db := d'\<rparr>)"
| step_verify:
    "verifyFace F (sys_db s) fresh now u fid rq = (r, d')
     \<Longrightarrow> step s (s\<lparr>sys_db := d'\<rparr>)"

text \<open>
  The states the server reaches from a start with no request waiting, in a database
  whose jobs have unique \<^verbatim>\<open>_id\<close>s.
\<close>

inductive reachable :: "system \<Rightarrow> bool" where
  reach_init: "sys_awaiting s = [] \<Longrightarrow> distinct (map j_id (jobs (sys_db s))) \<Longrightarrow> reachable s"
| reach_step: "reachable s \<Longrightarrow> step s s' \<Longrightarrow> reachable s'"

text \<open>
  What a step may do to a stored job: its status stays, or goes from \<^verbatim>\<open>processing\<close>
  to a terminal one; a job that was terminal keeps everything but the proposed and
  selected labels of its clusters, \<^verbatim>\<open>isLabeled\<close> and \<^verbatim>\<open>updatedAt\<close>.
\<close>

definition stripLabels :: "cluster \<Rightarrow> cluster" where
  "stripLabels c = c\<lparr>c_proposedLabels := [], c_selectedLabel := None\<rparr>"

definition frozenPart :: "job \<Rightarrow> job" where
  "frozenPart j = j\<lparr>j_clusters := map stripLabels (j_clusters j), j_isLabeled := False,
                    j_updatedAt := 0\<rparr>"

definition jobTransition :: "job \<Rightarrow> job \<Rightarrow> bool" where
  "jobTransition j j' =
     (j_id j' = j_id j
      \<and> (j_status j' = j_status j
          \<or> j_status j = Processing \<and> (j_status j' = Completed \<or> j_status j' = Failed))
      \<and> (j_status j \<noteq> Processing \<longrightarrow> frozenPart j' = frozenPart j))"

definition jobsTransition :: "job list \<Rightarrow> job list \<Rightarrow> bool" where
  "jobsTransition js js' =
     (length js \<le> length js'
      \<and> (\<forall>i<length js. jobTransition (js ! i) (js' ! i))
      \<and> (\<forall>i<length js'. length js \<le> i \<longrightarrow> j_status (js' ! i) = Processing))"

text \<open>
  The \<^verbatim>\<open>_id\<close>s of the jobs are unique, every waiting request waits for its own job,
  and a job that is waited for is still in \<^verbatim>\<open>processing\<close>.
\<close>

definition awaitingInv :: "system \<Rightarrow> bool" where
  "awaitingInv s =
     (distinct (map j_id (jobs (sys_db s)))
      \<and> distinct (map j_id (sys_awaiting s))
      \<and> set (map j_id (sys_awaiting s)) \<subseteq> set (map j_id (jobs (sys_db s)))
      \<and> (\<forall>j\<in>set (jobs (sys_db s)).
            j_id j \<in> set (map j_id (sys_awaiting s)) \<longrightarrow> j_status j = Processing))"

section \<open>Notions used in the statements\<close>

text \<open>A cluster that passes both \<^verbatim>\<open>continue\<close> guards of the completion loop.\<close>

definition promotable :: "cluster \<Rightarrow> bool" where
  "promotable c = (\<not> falsy (c_selectedLabel c) \<and> \<not> noRepresentative c)"

text \<open>A verification request that asks for a new person of the given type.\<close>

definition createsPerson :: "verify_request \<Rightarrow> string \<Rightarrow> bool" where
  "createsPerson rq t =
     (vr_status rq = Some ''verified'' \<and> vr_createNewPerson rq \<and> vr_personType rq = Some t)"

text \<open>A label that the name lookups of the completion loop resolve in a database.\<close>

definition knownName :: "db \<Rightarrow> string \<Rightarrow> bool" where
  "knownName w l =
     (findEmployeeByName (employees w) l \<noteq> None \<or> findVisitorByName (visitors w) l \<noteq> None)"

text \<open>Every promotable cluster of a list has a label that resolves.\<close>

definition labelsKnown :: "db \<Rightarrow> cluster list \<Rightarrow> bool" where
  "labelsKnown w cs = (\<forall>c\<in>set cs. promotable c \<longrightarrow> knownName w (the (c_selectedLabel c)))"

text \<open>
  What a run of the completion loop over the clusters \<open>cs\<close>, the first of them at index
  \<open>k\<close>, does to the working copy \<open>w\<close>, where \<open>ok\<close> says that no iteration threw and
  \<open>w'\<close> is the working copy at the end: users, employees and jobs are untouched and no
  visitor name is lost; a run that did not throw added one face per promotable cluster
  and leaves every selected label resolved; a run over labels that were all resolved
  adds no visitor, and throws only if a face save or visitor update does; a promotable
  cluster whose face save throws makes the run throw.
\<close>

definition loopPost ::
  "(store_write \<Rightarrow> bool) \<Rightarrow> nat \<Rightarrow> cluster list \<Rightarrow> db \<Rightarrow> bool \<Rightarrow> db \<Rightarrow> bool" where
  "loopPost F k cs w ok w' =
     (users w' = users w \<and> employees w' = employees w \<and> jobs w' = jobs w
      \<and> set (map v_name (visitors w)) \<subseteq> set (map v_name (visitors w'))
      \<and> (ok \<longrightarrow> length (faces w') = length (faces w) + length (filter promotable cs)
                \<and> labelsKnown w' cs)
      \<and> (labelsKnown w cs \<longrightarrow>
            map v_name (visitors w') = map v_name (visitors w)
            \<and> map v_id (visitors w') = map v_id (visitors w)
            \<and> (\<not> ok \<longrightarrow> (\<exists>i. F (FaceSave i) \<or> F (VisitorUpdate i))))
      \<and> (\<forall>i<length cs. promotable (cs ! i) \<and> F (FaceSave (k + i)) \<longrightarrow> \<not> ok))"

section \<open>Sequences of proposals\<close>







section \<open>Example data\<close>

definition noPermissions :: permissions where
  "noPermissions = \<lparr>canVerifyFaces = False, canManageUsers = False,
                      canManageAllFaces = False, canViewAllData = False\<rparr>"

definition exUploader :: user where
  "exUploader = \<lparr>u_id = 1, u_name = ''Uma'', u_email = ''uma@example.com'',
                   u_password = ''hash1'', u_role = ''user'', u_permissions = noPermissions\<rparr>"

definition exReviewer :: user where
  "exReviewer = \<lparr>u_id = 2, u_name = ''Rob'', u_email = ''rob@example.com'',
                   u_password = ''hash2'', u_role = ''user'',
                   u_permissions = noPermissions\<lparr>canVerifyFaces := True\<rparr>\<rparr>"

definition exAdmin :: user where
  "exAdmin = \<lparr>u_id = 3, u_name = ''Ada'', u_email = ''ada@example.com'',
                u_password = ''hash3'', u_role = ''admin'',
                u_permissions = \<lparr>canVerifyFaces = True, canManageUsers = True,
                                 canManageAllFaces = True, canViewAllData = True\<rparr>\<rparr>"

definition exStranger :: user where
  "exStranger = \<lparr>u_id = 4, u_name = ''Sam'', u_email = ''sam@example.com'',
                   u_password = ''hash4'', u_role = ''user'', u_permissions = noPermissions\<rparr>"

definition exFace :: face where
  "exFace = \<lparr>f_id = 10, f_primaryImage = ''img'', f_additionalImages = [],
               f_personType = ''unknown'', f_personId = 11, f_active = True,
               f_verificationStatus = ''unverified'', f_uploadedBy = Some 1,
               f_verifiedBy = None, f_verificationDate = None, f_verificationNote = None,
               f_proposedLabels = [], f_selectedLabel = None,
               f_createdAt = 0, f_updatedAt = 0\<rparr>"

definition exCluster :: cluster where
  "exCluster = \<lparr>c_clusterId = ''0'',
                  c_faces = [\<lparr>cr_imageUrl = ''face_20_0_0.jpg'', cr_imageData = ''img''\<rparr>],
                  c_representativeFace =
                    Some \<lparr>r_imageUrl = ''face_20_0_representative.jpg'', r_imageData = Some ''img''\<rparr>,
                  c_proposedLabels = [], c_selectedLabel = None\<rparr>"

definition exJob :: job where
  "exJob = \<lparr>j_id = 21, j_fileId = ''20'', j_fileName = ''door.jpg'', j_fileType = ''image'',
              j_uploadedBy = 1, j_facesCount = 1, j_clusters = [exCluster],
              j_status = Completed,
              j_processingMessage = ''Successfully extracted 1 faces from image'',
              j_createdAt = 0, j_updatedAt = 1, j_isLabeled = False, j_sessionId = ''20''\<rparr>"

definition exDb :: db where
  "exDb = \<lparr>users = [exUploader, exReviewer, exAdmin, exStranger], employees = [],
             visitors = [], faces = [exFace], jobs = [exJob]\<rparr>"

definition noFault :: "store_write \<Rightarrow> bool" where
  "noFault w = False"


definition exVerifyNoLabel :: verify_request where
  "exVerifyNoLabel = \<lparr>vr_status = Some ''verified'', vr_selectedLabel = None,
     vr_personType = Some ''visitor'', vr_personId = None, vr_note = Some ''ok'',
     vr_createNewPerson = True, vr_purpose = None\<rparr>"

definition exClusterLabeled :: cluster where
  "exClusterLabeled = exCluster\<lparr>c_proposedLabels :=
       [\<lparr>p_label = ''Alice'', p_proposedBy = 1, p_proposedAt = 6\<rparr>],
     c_selectedLabel := Some ''Alice''\<rparr>"

definition exJobLabeled :: job where
  "exJobLabeled = exJob\<lparr>j_clusters := [exClusterLabeled]\<rparr>"

definition exDbLabeled :: db where
  "exDbLabeled = exDb\<lparr>jobs := [exJobLabeled]\<rparr>"

definition faceFault :: "store_write \<Rightarrow> bool" where
  "faceFault w = (w = FaceSave 0)"

definition exVerifyCreate :: verify_request where
  "exVerifyCreate = \<lparr>vr_status = Some ''verified'', vr_selectedLabel = Some ''Alice'',
     vr_personType = Some ''visitor'', vr_personId = None, vr_note = Some ''ok'',
     vr_createNewPerson = True, vr_purpose = None\<rparr>"

definition exUpload :: upload where
  "exUpload = \<lparr>up_originalname = ''door.mp4'', up_buffer = ''bytes'', up_fileType = ''video''\<rparr>"

definition exNewJob :: job where
  "exNewJob = \<lparr>j_id = 41, j_fileId = showNat 40, j_fileName = ''door.mp4'',
     j_fileType = ''video'', j_uploadedBy = 1, j_facesCount = 0, j_clusters = [],
     j_status = Processing,
     j_processingMessage = ''Extracting faces from uploaded file...'',
     j_createdAt = 9, j_updatedAt = 9, j_isLabeled = False, j_sessionId = showNat 40\<rparr>"

definition exSystem :: system where
  "exSystem = \<lparr>sys_db = exDb, sys_awaiting = []\<rparr>"

definition exWaiting :: system where
  "exWaiting = \<lparr>sys_db = exDb\<lparr>jobs := [exJob, exNewJob]\<rparr>, sys_awaiting = [exNewJob]\<rparr>"

definition exResult :: provider_result where
  "exResult = \<lparr>pr_success = True, pr_is_valid = True, pr_face_count = 2,
     pr_clusters = [(''0'', [''imgA'', ''imgB''])], pr_message = Some ''ok''\<rparr>"

definition exProcess :: process_end where
  "exProcess = Closed 0 (Inr exResult) []"

definition exSettled :: system where
  "exSettled = \<lparr>sys_db = (sys_db exWaiting)\<lparr>jobs :=
       the (extractBackground noFault 12 exNewJob (Some exProcess) (jobs (sys_db exWaiting)))\<rparr>,
     sys_awaiting = []\<rparr>"




section \<open>Properties\<close>

subsection \<open>Auxiliary facts on lists and collections\<close>

lemma findIndex_Some: "findIndex P xs = Some i \<Longrightarrow> i < length xs \<and> P (xs ! i) \<and> (\<forall>j<i. \<not> P (xs ! j))"
proof (induction xs arbitrary: i)
  case Nil then show ?case by simp
next
  case (Cons x xs)
  show ?case
  proof (cases "P x")
    case True with Cons.prems show ?thesis by simp
  next
    case False
    with Cons.prems obtain i' where i': "findIndex P xs = Some i'" "i = Suc i'"
      by (auto split: option.splits)
    from Cons.IH[OF i'(1)] False i'(2) show ?thesis
      by (auto simp: nth_Cons split: nat.splits)
  qed
qed



lemma find_saveFace:
  "findFaceById fs i = Some f \<Longrightarrow> f_id f' = i \<Longrightarrow> findFaceById (saveFace f' fs) i = Some f'"
  unfolding findFaceById_def saveFace_def
  by (induction fs) (auto split: if_splits)



lemma find_saveJob:
  "findJobById js i = Some j \<Longrightarrow> j_id j' = i \<Longrightarrow> findJobById (saveJob j' js) i = Some j'"
  unfolding findJobById_def saveJob_def
  by (induction js) (auto split: if_splits)

lemma findFaceById_id: "findFaceById fs i = Some f \<Longrightarrow> f_id f = i"
  unfolding findFaceById_def by (induction fs) (auto split: if_splits)

lemma findJobById_id: "findJobById js i = Some j \<Longrightarrow> j_id j = i"
  unfolding findJobById_def by (induction js) (auto split: if_splits)

lemmas ex_defs = exDb_def exFace_def exJob_def exCluster_def exUploader_def exReviewer_def
  exAdmin_def exStranger_def noPermissions_def

subsection \<open>Who may propose a label for a face\<close>

text \<open>
  Claim C8 as stated, refuted: \<open>exReviewer\<close> did not upload \<open>exFace\<close>, is neither admin
  nor manager and does not hold \<^verbatim>\<open>canViewAllData\<close>, yet holds \<^verbatim>\<open>canVerifyFaces\<close>; the
  route's guard lets such a caller through, and the proposal is recorded.
\<close>

theorem propose_without_read_access_counterexample:
  "\<not> canUserAccessFace exReviewer exFace
   \<and> f_uploadedBy exFace \<noteq> Some (u_id exReviewer)
   \<and> u_role exReviewer \<noteq> ''admin'' \<and> u_role exReviewer \<noteq> ''manager''
   \<and> \<not> canViewAllData (u_permissions exReviewer)
   \<and> fst (proposeFaceLabel exDb 5 exReviewer 10 (Some ''Bob'')) \<noteq> Inl Forbidden
   \<and> map p_label (f_proposedLabels (the (findFaceById
         (faces (snd (proposeFaceLabel exDb 5 exReviewer 10 (Some ''Bob'')))) 10))) = [''Bob'']"
  by (simp add: ex_defs proposeFaceLabel_def canUserAccessFace_def findFaceById_def
      saveFace_def upsertProposal_def Let_def)

text \<open>
  Claim C8, amended: a proposal for an existing face by a caller who is not its
  uploader, is neither admin nor manager, and holds neither \<^verbatim>\<open>canViewAllData\<close> nor
  \<^verbatim>\<open>canVerifyFaces\<close> is answered \<open>Forbidden\<close>, and the database is left as it was.
\<close>

theorem propose_forbidden_without_access:
  assumes "\<not> falsy label"
    and "findFaceById (faces d) fid = Some f"
    and "f_uploadedBy f \<noteq> Some (u_id u)"
    and "u_role u \<noteq> ''admin''" and "u_role u \<noteq> ''manager''"
    and "\<not> canViewAllData (u_permissions u)"
    and "\<not> canVerifyFaces (u_permissions u)"
  shows "proposeFaceLabel d now u fid label = (Inl Forbidden, d)"
  using assms
  by (auto simp: proposeFaceLabel_def canUserAccessFace_def split: option.splits)

text \<open>The hypotheses of the amended claim C8 at a concrete caller and face.\<close>

theorem propose_forbidden_without_access_witness:
  "proposeFaceLabel exDb 5 exStranger 10 (Some ''Bob'') = (Inl Forbidden, exDb)"
  by (rule propose_forbidden_without_access[where f = exFace])
     (simp_all add: ex_defs findFaceById_def)

subsection \<open>Privileged proposals and the selected label\<close>

text \<open>
  Claim C3 as stated, refuted for faces: an admin holding \<^verbatim>\<open>canVerifyFaces\<close> proposes
  a label for \<open>exFace\<close>; the proposal succeeds and the face's \<^verbatim>\<open>selectedLabel\<close> is
  not the proposed label.
\<close>

theorem privileged_face_proposal_counterexample:
  "u_role exAdmin = ''admin'' \<and> canVerifyFaces (u_permissions exAdmin)
   \<and> \<not> isl (fst (proposeFaceLabel exDb 5 exAdmin 10 (Some ''Bob'')))
   \<and> f_selectedLabel (the (findFaceById
         (faces (snd (proposeFaceLabel exDb 5 exAdmin 10 (Some ''Bob'')))) 10)) \<noteq> Some ''Bob''"
  by (simp add: ex_defs proposeFaceLabel_def canUserAccessFace_def findFaceById_def
      saveFace_def upsertProposal_def Let_def)

text \<open>
  Claim C3, amended: a successful cluster proposal by an admin, a manager or a holder
  of \<^verbatim>\<open>canVerifyFaces\<close> sets the cluster's \<^verbatim>\<open>selectedLabel\<close> to the proposed label in
  the stored job; a successful face proposal, by whomever, leaves the face's
  \<^verbatim>\<open>selectedLabel\<close> as it was (the verification route is what sets it).
\<close>

theorem privileged_proposal_selectedLabel:
  "(fst (labelCluster d now u jid cid label) = Inr c' \<longrightarrow>
      u_role u = ''admin'' \<or> u_role u = ''manager'' \<or> canVerifyFaces (u_permissions u) \<longrightarrow>
      c_selectedLabel c' = label
      \<and> (\<exists>j'. findJobById (jobs (snd (labelCluster d now u jid cid label))) jid = Some j'
               \<and> c' \<in> set (j_clusters j')))
   \<and> (fst (proposeFaceLabel d now u fid label) = Inr f' \<longrightarrow>
      (\<exists>f. findFaceById (faces d) fid = Some f \<and> f_selectedLabel f' = f_selectedLabel f)
      \<and> findFaceById (faces (snd (proposeFaceLabel d now u fid label))) fid = Some f')"
proof (intro conjI impI)
  assume a: "fst (labelCluster d now u jid cid label) = Inr c'"
    and p: "u_role u = ''admin'' \<or> u_role u = ''manager'' \<or> canVerifyFaces (u_permissions u)"
  define d' where "d' = snd (labelCluster d now u jid cid label)"
  from a obtain j ci where j: "findJobById (jobs d) jid = Some j"
    and ci: "findIndex (\<lambda>c. c_clusterId c = cid) (j_clusters j) = Some ci"
    by (auto simp: labelCluster_def split: if_splits option.splits)
  define c1 where "c1 = (j_clusters j ! ci)\<lparr>c_proposedLabels :=
      upsertProposal (u_id u) (the label) now (c_proposedLabels (j_clusters j ! ci))\<rparr>"
  from a j ci p have c': "c' = c1\<lparr>c_selectedLabel := label\<rparr>"
    by (auto simp: labelCluster_def c1_def Let_def split: if_splits)
  from a j ci p c' have d': "d' = d\<lparr>jobs := saveJob (j\<lparr>j_clusters := list_update (j_clusters j) ci c',
                 j_updatedAt := now\<rparr>) (jobs d)\<rparr>"
    by (auto simp: d'_def labelCluster_def c1_def Let_def split: if_splits)
  from c' show "c_selectedLabel c' = label" by simp
  from findIndex_Some[OF ci] have "ci < length (j_clusters j)" by simp
  then have "c' \<in> set (list_update (j_clusters j) ci c')" by (simp add: set_update_memI)
  moreover have "findJobById (jobs d') jid
      = Some (j\<lparr>j_clusters := list_update (j_clusters j) ci c', j_updatedAt := now\<rparr>)"
    unfolding d' using find_saveJob[OF j] findJobById_id[OF j] by simp
  ultimately show "\<exists>j'. findJobById (jobs (snd (labelCluster d now u jid cid label))) jid = Some j'
       \<and> c' \<in> set (j_clusters j')"
    by (simp add: d'_def)
next
  assume a: "fst (proposeFaceLabel d now u fid label) = Inr f'"
  define d' where "d' = snd (proposeFaceLabel d now u fid label)"
  from a obtain f where f: "findFaceById (faces d) fid = Some f"
    by (auto simp: proposeFaceLabel_def split: if_splits option.splits)
  with a have f': "f' = f\<lparr>f_proposedLabels :=
        upsertProposal (u_id u) (the label) now (f_proposedLabels f), f_updatedAt := now\<rparr>"
    by (auto simp: proposeFaceLabel_def Let_def split: if_splits)
  from a f f' have d': "d' = d\<lparr>faces := saveFace f' (faces d)\<rparr>"
    by (auto simp: d'_def proposeFaceLabel_def Let_def split: if_splits)
  from f f' show "\<exists>f. findFaceById (faces d) fid = Some f \<and> f_selectedLabel f' = f_selectedLabel f"
    by simp
  from f' findFaceById_id[OF f] have "f_id f' = fid" by simp
  from find_saveFace[OF f this]
  show "findFaceById (faces (snd (proposeFaceLabel d now u fid label))) fid = Some f'"
    using d' by (simp add: d'_def)
qed

text \<open>The amended claim C3 at an admin's proposals for \<open>exJob\<close> and \<open>exFace\<close>.\<close>

theorem privileged_proposal_selectedLabel_witness:
  "c_selectedLabel (projr (fst (labelCluster exDb 5 exAdmin 21 ''0'' (Some ''Bob'')))) = Some ''Bob''
   \<and> f_selectedLabel (projr (fst (proposeFaceLabel exDb 5 exAdmin 10 (Some ''Bob'')))) = None"
proof -
  have a: "fst (labelCluster exDb 5 exAdmin 21 ''0'' (Some ''Bob''))
           = Inr (projr (fst (labelCluster exDb 5 exAdmin 21 ''0'' (Some ''Bob''))))"
    by (simp add: ex_defs labelCluster_def findJobById_def Let_def)
  have b: "fst (proposeFaceLabel exDb 5 exAdmin 10 (Some ''Bob''))
           = Inr (projr (fst (proposeFaceLabel exDb 5 exAdmin 10 (Some ''Bob''))))"
    by (simp add: ex_defs proposeFaceLabel_def findFaceById_def canUserAccessFace_def Let_def)
  have p: "u_role exAdmin = ''admin'' \<or> u_role exAdmin = ''manager''
           \<or> canVerifyFaces (u_permissions exAdmin)"
    by (simp add: ex_defs)
  have f: "findFaceById (faces exDb) 10 = Some exFace"
    by (simp add: exDb_def exFace_def findFaceById_def)
  from privileged_proposal_selectedLabel[where d = exDb and now = 5 and u = exAdmin and jid = 21
      and cid = "''0''" and label = "Some ''Bob''" and fid = 10] a b p f
  show ?thesis by (auto simp: exFace_def)
qed


subsection \<open>One slot per proposer\<close>






lemma find_Some_set: "find P xs = Some x \<Longrightarrow> x \<in> set xs \<and> P x"
  by (induction xs) (auto split: if_splits)









subsection \<open>Verification without a label\<close>

text \<open>
  Claim C4: a verification call by a holder of \<^verbatim>\<open>canVerifyFaces\<close> for an existing
  face, with status \<^verbatim>\<open>verified\<close> and no selected label, is answered \<open>MissingLabel\<close>;
  whatever store failures are pending, the database is left as it was, so the stored
  face, its \<^verbatim>\<open>verificationStatus\<close> included, is the one from before the call.
\<close>

theorem verify_without_label:
  assumes "canVerifyFaces (u_permissions u)"
    and "findFaceById (faces d) fid = Some f"
    and "vr_status rq = Some ''verified''"
    and "falsy (vr_selectedLabel rq)"
  shows "verifyFace F d fresh now u fid rq = (Inl MissingLabel, d)
         \<and> findFaceById (faces (snd (verifyFace F d fresh now u fid rq))) fid = Some f"
proof -
  have "verifyTry F fresh now u fid rq (startTransaction (startSession d))
        = (Respond MissingLabel, startTransaction (startSession d))"
    using assms
    by (simp add: verifyTry_def txDb_def startTransaction_def startSession_def Let_def)
  with assms(1) have "verifyFace F d fresh now u fid rq = (Inl MissingLabel, d)"
    by (simp add: verifyFace_def endSession_def startTransaction_def startSession_def)
  with assms(2) show ?thesis by simp
qed

text \<open>Claim C4 at a request of \<open>exReviewer\<close> for \<open>exFace\<close>.\<close>

theorem verify_without_label_witness:
  "verifyFace noFault exDb 30 5 exReviewer 10 exVerifyNoLabel = (Inl MissingLabel, exDb)
   \<and> f_verificationStatus (the (findFaceById
        (faces (snd (verifyFace noFault exDb 30 5 exReviewer 10 exVerifyNoLabel))) 10))
      = ''unverified''"
proof -
  have "canVerifyFaces (u_permissions exReviewer)" by (simp add: ex_defs)
  moreover have "findFaceById (faces exDb) 10 = Some exFace"
    by (simp add: exDb_def exFace_def findFaceById_def)
  moreover have "vr_status exVerifyNoLabel = Some ''verified''"
    "falsy (vr_selectedLabel exVerifyNoLabel)" by (simp_all add: exVerifyNoLabel_def)
  ultimately show ?thesis
    using verify_without_label[of exReviewer exDb 10 exFace exVerifyNoLabel noFault 30 5]
    by (simp add: exFace_def)
qed

subsection \<open>Transactions\<close>

lemma txDb_working [simp]: "s_working s = Some w \<Longrightarrow> txDb s = w"
  by (simp add: txDb_def)

lemma txWrite_working:
  "s_working s = Some w \<Longrightarrow> txWrite g s = s\<lparr>s_working := Some (g w)\<rparr>"
  by (simp add: txWrite_def)

lemma begin_working [simp]:
  "s_working (startTransaction (startSession d)) = Some d"
  "s_committed (startTransaction (startSession d)) = d"
  by (simp_all add: startTransaction_def startSession_def)

lemma abort_committed [simp]: "endSession (abortTransaction s) = s_committed s"
  by (simp add: endSession_def abortTransaction_def)

lemma commit_working:
  "s_working s = Some w \<Longrightarrow> endSession (commitTransaction s) = w"
  by (simp add: endSession_def commitTransaction_def)

subsection \<open>The verification route\<close>

lemma verifyFinish_eq:
  assumes "s_working s = Some w"
  shows "verifyFinish F f s =
    (if F (FaceSave 0) then (Thrown, s)
     else if F CommitTransaction
       then (Thrown, s\<lparr>s_working := Some (w\<lparr>faces := saveFace f (faces w)\<rparr>)\<rparr>)
       else (Done f, \<lparr>s_committed = w\<lparr>faces := saveFace f (faces w)\<rparr>, s_working = None\<rparr>))"
  using assms
  by (simp add: verifyFinish_def Let_def txWrite_working commitTransaction_def)

lemma verifyTry_rollback:
  assumes "s_working s = Some d" and "s_committed s = d"
  shows "(case verifyTry F fresh now u fid rq s of
            (Done f, s') \<Rightarrow> \<not> F (FaceSave 0) \<and> \<not> F CommitTransaction
          | (Respond e, s') \<Rightarrow> s_committed s' = d
          | (Thrown, s') \<Rightarrow> s_committed s' = d)"
  using assms
  by (simp add: verifyTry_def Let_def verifyFinish_eq txWrite_working split: option.split)

lemma verifyTry_commit:
  assumes "s_working s = Some d" and "s_committed s = d"
  shows "(case verifyTry F fresh now u fid rq s of
            (Done f, s') \<Rightarrow>
              s_working s' = None
              \<and> faces (s_committed s') = saveFace f (faces d)
              \<and> jobs (s_committed s') = jobs d
              \<and> f_verificationStatus f = the (vr_status rq)
              \<and> employees (s_committed s') = employees d @
                  (if createsPerson rq ''employee''
                   then [\<lparr>e_id = fresh, e_name = trim (the (vr_selectedLabel rq)),
                          e_faceId = f_id f, e_joiningDate = now\<rparr>] else [])
              \<and> map v_id (visitors (s_committed s')) = map v_id (visitors d) @
                  (if createsPerson rq ''visitor'' then [fresh] else [])
              \<and> map v_faceId (visitors (s_committed s')) = map v_faceId (visitors d) @
                  (if createsPerson rq ''visitor'' then [Some (f_id f)] else [])
              \<and> map v_name (visitors (s_committed s')) = map v_name (visitors d) @
                  (if createsPerson rq ''visitor'' then [trim (the (vr_selectedLabel rq))] else [])
              \<and> (createsPerson rq ''employee'' \<or> createsPerson rq ''visitor''
                   \<longrightarrow> f_personId f = fresh \<and> Some (f_personType f) = vr_personType rq)
          | (Respond e, s') \<Rightarrow> True
          | (Thrown, s') \<Rightarrow> True)"
  using assms
  by (cases "vr_status rq"; cases "vr_personType rq"; cases "vr_selectedLabel rq";
      simp add: verifyTry_def Let_def verifyFinish_eq txWrite_working createsPerson_def
        validPersonType_def split: option.split)

subsection \<open>The completion loop\<close>

lemma find_None_conv: "find P xs = None \<longleftrightarrow> (\<forall>x\<in>set xs. \<not> P x)"
  by (induction xs) auto

lemma findVisitorByName_None:
  "findVisitorByName vs l = None \<longleftrightarrow> trim l \<notin> v_name ` set vs"
  by (force simp: findVisitorByName_def find_None_conv image_iff)

lemma findEmployeeByName_None:
  "findEmployeeByName es l = None \<longleftrightarrow> trim l \<notin> e_name ` set es"
  by (force simp: findEmployeeByName_def find_None_conv image_iff)

lemma knownName_names:
  "knownName w l \<longleftrightarrow>
     trim l \<in> e_name ` set (employees w) \<or> trim l \<in> v_name ` set (visitors w)"
  by (simp add: knownName_def findVisitorByName_None findEmployeeByName_None)

lemma newFace_id [simp]: "f_id (newFace i now u c ptype pid) = i"
  by (simp add: newFace_def)

lemma updateVisitorFace_names [simp]:
  "map v_name (updateVisitorFace pid fid vs) = map v_name vs"
  "map v_id (updateVisitorFace pid fid vs) = map v_id vs"
  "length (updateVisitorFace pid fid vs) = length vs"
proof -
  show "map v_name (updateVisitorFace pid fid vs) = map v_name vs"
    by (auto simp: updateVisitorFace_def map_update list_update_same_conv
        dest: findIndex_Some split: option.split)
  show "map v_id (updateVisitorFace pid fid vs) = map v_id vs"
    by (auto simp: updateVisitorFace_def map_update list_update_same_conv
        dest: findIndex_Some split: option.split)
  show "length (updateVisitorFace pid fid vs) = length vs"
    by (simp add: updateVisitorFace_def split: option.split)
qed

lemma promoteCluster_step:
  assumes "s_working s = Some w"
  shows "(case promoteCluster F k now u c ptype pid s n of
            (ok, s', n') \<Rightarrow>
              s_committed s' = s_committed s
              \<and> (\<exists>w'. s_working s' = Some w'
                    \<and> users w' = users w \<and> employees w' = employees w \<and> jobs w' = jobs w
                    \<and> map v_name (visitors w') = map v_name (visitors w)
                    \<and> map v_id (visitors w') = map v_id (visitors w)
                    \<and> v_name ` set (visitors w') = v_name ` set (visitors w)
                    \<and> (ok \<longrightarrow> length (faces w') = Suc (length (faces w)))
                    \<and> (\<not> ok \<longrightarrow> F (FaceSave k) \<or> F (VisitorUpdate k))
                    \<and> (F (FaceSave k) \<longrightarrow> \<not> ok)))"
proof -
  have "v_name ` set (updateVisitorFace pid n (visitors w)) = v_name ` set (visitors w)"
    using updateVisitorFace_names(1)[of pid n "visitors w"] by (metis list.set_map)
  with assms show ?thesis
    by (simp add: promoteCluster_def Let_def txWrite_working)
qed

lemma promoteCluster_obtain:
  assumes "s_working s = Some w"
  obtains ok s' n' w' where
    "promoteCluster F k now u c ptype pid s n = (ok, s', n')"
    "s_committed s' = s_committed s" "s_working s' = Some w'"
    "users w' = users w" "employees w' = employees w" "jobs w' = jobs w"
    "map v_name (visitors w') = map v_name (visitors w)"
    "map v_id (visitors w') = map v_id (visitors w)"
    "ok \<Longrightarrow> length (faces w') = Suc (length (faces w))"
    "\<not> ok \<Longrightarrow> F (FaceSave k) \<or> F (VisitorUpdate k)"
    "F (FaceSave k) \<Longrightarrow> \<not> ok"
proof -
  obtain ok s' n' where r: "promoteCluster F k now u c ptype pid s n = (ok, s', n')"
    by (cases "promoteCluster F k now u c ptype pid s n") auto
  with promoteCluster_step[OF assms, of F k now u c ptype pid n] that show thesis
    by auto
qed

lemma knownName_cong:
  "employees w' = employees w \<Longrightarrow> map v_name (visitors w') = map v_name (visitors w)
   \<Longrightarrow> knownName w' l = knownName w l"
  by (metis knownName_names list.set_map)

lemma knownName_mono:
  "employees w' = employees w \<Longrightarrow>
   set (map v_name (visitors w)) \<subseteq> set (map v_name (visitors w')) \<Longrightarrow>
   knownName w l \<Longrightarrow> knownName w' l"
  unfolding knownName_names by auto

lemma labelsKnown_mono:
  "employees w' = employees w \<Longrightarrow>
   set (map v_name (visitors w)) \<subseteq> set (map v_name (visitors w')) \<Longrightarrow>
   labelsKnown w cs \<Longrightarrow> labelsKnown w' cs"
  unfolding labelsKnown_def using knownName_mono by blast

lemma completeCluster_obtain:
  assumes "s_working s = Some w"
  obtains ok s' n' w' where
    "completeCluster F k now u c s n = (ok, s', n')"
    "s_committed s' = s_committed s" "s_working s' = Some w'"
    "users w' = users w" "employees w' = employees w" "jobs w' = jobs w"
    "set (map v_name (visitors w)) \<subseteq> set (map v_name (visitors w'))"
    "knownName w (the (c_selectedLabel c)) \<Longrightarrow> map v_name (visitors w') = map v_name (visitors w)"
    "knownName w (the (c_selectedLabel c)) \<Longrightarrow> map v_id (visitors w') = map v_id (visitors w)"
    "knownName w (the (c_selectedLabel c)) \<Longrightarrow> \<not> ok \<Longrightarrow> F (FaceSave k) \<or> F (VisitorUpdate k)"
    "ok \<Longrightarrow> length (faces w') = Suc (length (faces w))"
    "ok \<Longrightarrow> knownName w' (the (c_selectedLabel c))"
    "F (FaceSave k) \<Longrightarrow> \<not> ok"
proof -
  note conclude = that
  let ?l = "the (c_selectedLabel c)"
  show thesis
  proof (cases "knownName w ?l")
    case True
    have main: thesis
      if eq: "completeCluster F k now u c s n = promoteCluster F k now u c ptype pid s (Suc n)"
      for ptype pid
    proof (rule promoteCluster_obtain[OF assms, of F k now u c ptype pid "Suc n"])
      fix ok s' n' w'
      assume r: "promoteCluster F k now u c ptype pid s (Suc n) = (ok, s', n')"
        and f: "s_committed s' = s_committed s" "s_working s' = Some w'"
          "users w' = users w" "employees w' = employees w" "jobs w' = jobs w"
        and nm: "map v_name (visitors w') = map v_name (visitors w)"
        and ids: "map v_id (visitors w') = map v_id (visitors w)"
        and ok: "ok \<Longrightarrow> length (faces w') = Suc (length (faces w))"
          "\<not> ok \<Longrightarrow> F (FaceSave k) \<or> F (VisitorUpdate k)"
          "F (FaceSave k) \<Longrightarrow> \<not> ok"
      have kn: "knownName w' ?l" using knownName_cong[OF f(4) nm, of ?l] True by simp
      have sub: "set (map v_name (visitors w)) \<subseteq> set (map v_name (visitors w'))"
        by (simp only: nm subset_refl)
      show thesis
        by (rule conclude[of ok s' n' w'])
           (use eq r f nm ids ok kn sub in \<open>simp_all only: simp_thms\<close>)
    qed
    show thesis
    proof (cases "findEmployeeByName (employees w) ?l")
      case (Some e)
      have "completeCluster F k now u c s n
          = promoteCluster F k now u c ''employee'' (e_id e) s (Suc n)"
        using assms Some by (simp add: completeCluster_def Let_def)
      then show thesis by (rule main)
    next
      case None
      with True have "findVisitorByName (visitors w) ?l \<noteq> None"
        by (simp add: knownName_def)
      then obtain v where v: "findVisitorByName (visitors w) ?l = Some v"
        by (cases "findVisitorByName (visitors w) ?l") simp_all
      have "completeCluster F k now u c s n
          = promoteCluster F k now u c ''visitor'' (v_id v) s (Suc n)"
        using assms None v by (simp add: completeCluster_def Let_def)
      then show thesis by (rule main)
    qed
  next
    case False
    then have none: "findEmployeeByName (employees w) ?l = None"
      "findVisitorByName (visitors w) ?l = None"
      by (simp_all add: knownName_def)
    let ?v = "\<lparr>v_id = Suc (Suc n), v_name = trim ?l, v_faceId = Some (Suc n),
               v_purpose = ''Created from face extraction'', v_createdAt = now\<rparr>"
    let ?w1 = "w\<lparr>visitors := visitors w @ [?v]\<rparr>"
    let ?s1 = "s\<lparr>s_working := Some ?w1\<rparr>"
    show thesis
    proof (cases "trim ?l = [] \<or> F (VisitorSave k)")
      case True
      have "completeCluster F k now u c s n = (False, s, Suc (Suc (Suc n)))"
        using none assms True by (simp add: completeCluster_def Let_def)
      then show thesis
        by (rule conclude[of False s _ w]) (use assms False in \<open>simp_all\<close>)
    next
      case nf: False
      have s1: "s_working ?s1 = Some ?w1" by simp
      have eq: "completeCluster F k now u c s n
             = promoteCluster F k now u c ''visitor'' (Suc (Suc n)) ?s1 (Suc (Suc (Suc n)))"
        using nf none assms by (simp add: completeCluster_def Let_def txWrite_working)
      show thesis
      proof (rule promoteCluster_obtain[OF s1, of F k now u c "''visitor''" "Suc (Suc n)"
            "Suc (Suc (Suc n))"])
        fix ok s' n' w'
        assume r: "promoteCluster F k now u c ''visitor'' (Suc (Suc n)) ?s1 (Suc (Suc (Suc n)))
                   = (ok, s', n')"
          and f: "s_committed s' = s_committed ?s1" "s_working s' = Some w'"
            "users w' = users ?w1" "employees w' = employees ?w1" "jobs w' = jobs ?w1"
          and nm: "map v_name (visitors w') = map v_name (visitors ?w1)"
          and ids: "map v_id (visitors w') = map v_id (visitors ?w1)"
          and ok: "ok \<Longrightarrow> length (faces w') = Suc (length (faces ?w1))"
            "\<not> ok \<Longrightarrow> F (FaceSave k) \<or> F (VisitorUpdate k)"
            "F (FaceSave k) \<Longrightarrow> \<not> ok"
        have names: "set (map v_name (visitors w'))
              = insert (trim ?l) (set (map v_name (visitors w)))"
          unfolding nm by simp
        have "trim ?l \<in> set (map v_name (visitors w'))"
          unfolding names by simp
        then have kn: "knownName w' ?l"
          unfolding knownName_names by simp
        have sub: "set (map v_name (visitors w)) \<subseteq> set (map v_name (visitors w'))"
          unfolding names by blast
        have f': "s_committed s' = s_committed s" "users w' = users w"
          "employees w' = employees w" "jobs w' = jobs w"
          using f by simp_all
        have ok': "ok \<Longrightarrow> length (faces w') = Suc (length (faces w))"
          using ok(1) by simp
        show thesis
          by (rule conclude[of ok s' n' w'])
             (use eq r f(2) f' ok' ok(3) kn sub False in \<open>simp_all only: simp_thms\<close>)
      qed
    qed
  qed
qed

lemma loopPost_skip:
  assumes "\<not> promotable c" and "loopPost F (Suc k) cs w ok w'"
  shows "loopPost F k (c # cs) w ok w'"
proof -
  have idx: "\<forall>i<length (c # cs). promotable ((c # cs) ! i) \<and> F (FaceSave (k + i)) \<longrightarrow> \<not> ok"
  proof (intro allI impI)
    fix i assume i: "i < length (c # cs)" and p: "promotable ((c # cs) ! i) \<and> F (FaceSave (k + i))"
    with assms(1) obtain i' where i': "i = Suc i'" by (cases i) auto
    with i p assms(2) show "\<not> ok" by (simp add: loopPost_def)
  qed
  have lk: "labelsKnown v (c # cs) = labelsKnown v cs" for v
    using assms(1) by (simp add: labelsKnown_def)
  from assms idx show ?thesis
    unfolding loopPost_def lk by simp
qed

lemma loopPost_throw:
  assumes c: "promotable c"
    and st: "users w1 = users w" "employees w1 = employees w" "jobs w1 = jobs w"
      "set (map v_name (visitors w)) \<subseteq> set (map v_name (visitors w1))"
    and kn: "knownName w (the (c_selectedLabel c)) \<Longrightarrow>
               map v_name (visitors w1) = map v_name (visitors w)"
      "knownName w (the (c_selectedLabel c)) \<Longrightarrow> map v_id (visitors w1) = map v_id (visitors w)"
      "knownName w (the (c_selectedLabel c)) \<Longrightarrow> F (FaceSave k) \<or> F (VisitorUpdate k)"
  shows "loopPost F k (c # cs) w False w1"
proof -
  have "labelsKnown w (c # cs) \<Longrightarrow> knownName w (the (c_selectedLabel c))"
    using c by (simp add: labelsKnown_def)
  with st kn show ?thesis
    unfolding loopPost_def by blast
qed

lemma loopPost_step:
  assumes c: "promotable c"
    and st: "users w1 = users w" "employees w1 = employees w" "jobs w1 = jobs w"
      "set (map v_name (visitors w)) \<subseteq> set (map v_name (visitors w1))"
    and kn: "knownName w (the (c_selectedLabel c)) \<Longrightarrow>
               map v_name (visitors w1) = map v_name (visitors w)"
      "knownName w (the (c_selectedLabel c)) \<Longrightarrow> map v_id (visitors w1) = map v_id (visitors w)"
    and ok1: "length (faces w1) = Suc (length (faces w))"
      "knownName w1 (the (c_selectedLabel c))" "\<not> F (FaceSave k)"
    and tl: "loopPost F (Suc k) cs w1 ok w'"
  shows "loopPost F k (c # cs) w ok w'"
proof -
  from tl have t: "users w' = users w1" "employees w' = employees w1" "jobs w' = jobs w1"
    "set (map v_name (visitors w1)) \<subseteq> set (map v_name (visitors w'))"
    by (simp_all add: loopPost_def)
  have a: "users w' = users w" "employees w' = employees w" "jobs w' = jobs w"
    "set (map v_name (visitors w)) \<subseteq> set (map v_name (visitors w'))"
    using t st by auto
  have b: "length (faces w') = length (faces w) + length (filter promotable (c # cs))
           \<and> labelsKnown w' (c # cs)" if ok
  proof -
    from tl that have l: "length (faces w') = length (faces w1) + length (filter promotable cs)"
      and k: "labelsKnown w' cs" by (simp_all add: loopPost_def)
    from knownName_mono[OF t(2) t(4) ok1(2)] have "knownName w' (the (c_selectedLabel c))" .
    with k have "labelsKnown w' (c # cs)" by (simp add: labelsKnown_def)
    with l ok1(1) c show ?thesis by simp
  qed
  have d: "map v_name (visitors w') = map v_name (visitors w)
           \<and> map v_id (visitors w') = map v_id (visitors w)
           \<and> (\<not> ok \<longrightarrow> (\<exists>i. F (FaceSave i) \<or> F (VisitorUpdate i)))"
    if lk: "labelsKnown w (c # cs)"
  proof -
    from lk c have h: "knownName w (the (c_selectedLabel c))" and lt: "labelsKnown w cs"
      by (simp_all add: labelsKnown_def)
    from labelsKnown_mono[OF st(2) st(4) lt] have "labelsKnown w1 cs" .
    with tl have "map v_name (visitors w') = map v_name (visitors w1)"
      "map v_id (visitors w') = map v_id (visitors w1)"
      "\<not> ok \<longrightarrow> (\<exists>i. F (FaceSave i) \<or> F (VisitorUpdate i))"
      by (simp_all add: loopPost_def)
    with kn(1)[OF h] kn(2)[OF h] show ?thesis by simp
  qed
  have e: "\<forall>i<length (c # cs). promotable ((c # cs) ! i) \<and> F (FaceSave (k + i)) \<longrightarrow> \<not> ok"
  proof (intro allI impI)
    fix i assume i: "i < length (c # cs)" and p: "promotable ((c # cs) ! i) \<and> F (FaceSave (k + i))"
    with ok1(3) obtain i' where i': "i = Suc i'" by (cases i) auto
    with i p tl show "\<not> ok" by (simp add: loopPost_def)
  qed
  from a b d e show ?thesis unfolding loopPost_def by blast
qed

lemma loopPost_Nil: "loopPost F k [] w True w"
  by (simp add: loopPost_def labelsKnown_def)

lemma completeLoop_post:
  "s_working s = Some w \<Longrightarrow>
   \<exists>ok s' n' w'. completeLoop F now u k cs s n = (ok, s', n')
      \<and> s_committed s' = s_committed s \<and> s_working s' = Some w' \<and> loopPost F k cs w ok w'"
proof (induction cs arbitrary: k s w n)
  case Nil
  then show ?case using loopPost_Nil[of F k w] by auto
next
  case (Cons c cs)
  show ?case
  proof (cases "promotable c")
    case False
    then have eq: "completeLoop F now u k (c # cs) s n = completeLoop F now u (Suc k) cs s n"
      by (auto simp: promotable_def)
    from Cons.IH[OF Cons.prems, of "Suc k" n] obtain ok s' n' w' where
      r: "completeLoop F now u (Suc k) cs s n = (ok, s', n')"
      "s_committed s' = s_committed s" "s_working s' = Some w'"
      "loopPost F (Suc k) cs w ok w'" by blast
    from loopPost_skip[OF False r(4)] r(1-3) show ?thesis unfolding eq by blast
  next
    case True
    then have g: "\<not> falsy (c_selectedLabel c)" "\<not> noRepresentative c"
      by (simp_all add: promotable_def)
    show ?thesis
    proof (rule completeCluster_obtain[OF Cons.prems, of F k now u c n])
      fix ok1 s1 n1 w1
      assume r1: "completeCluster F k now u c s n = (ok1, s1, n1)"
        and f: "s_committed s1 = s_committed s" "s_working s1 = Some w1"
        and st: "users w1 = users w" "employees w1 = employees w" "jobs w1 = jobs w"
          "set (map v_name (visitors w)) \<subseteq> set (map v_name (visitors w1))"
        and kn: "knownName w (the (c_selectedLabel c)) \<Longrightarrow>
                   map v_name (visitors w1) = map v_name (visitors w)"
          "knownName w (the (c_selectedLabel c)) \<Longrightarrow>
                   map v_id (visitors w1) = map v_id (visitors w)"
          "knownName w (the (c_selectedLabel c)) \<Longrightarrow> \<not> ok1 \<Longrightarrow>
                   F (FaceSave k) \<or> F (VisitorUpdate k)"
        and ok: "ok1 \<Longrightarrow> length (faces w1) = Suc (length (faces w))"
          "ok1 \<Longrightarrow> knownName w1 (the (c_selectedLabel c))"
          "F (FaceSave k) \<Longrightarrow> \<not> ok1"
      show ?thesis
      proof (cases ok1)
        case False
        with g r1 have eq: "completeLoop F now u k (c # cs) s n = (False, s1, n1)" by simp
        from False kn(3) have "knownName w (the (c_selectedLabel c)) \<Longrightarrow>
             F (FaceSave k) \<or> F (VisitorUpdate k)" by simp
        from loopPost_throw[OF True st kn(1,2) this] f show ?thesis unfolding eq by blast
      next
        case ok1: True
        with g r1 have eq: "completeLoop F now u k (c # cs) s n
            = completeLoop F now u (Suc k) cs s1 n1" by simp
        from Cons.IH[OF f(2), of "Suc k" n1] obtain ok s' n' w' where
          r: "completeLoop F now u (Suc k) cs s1 n1 = (ok, s', n')"
          "s_committed s' = s_committed s1" "s_working s' = Some w'"
          "loopPost F (Suc k) cs w1 ok w'" by blast
        from ok1 ok(3) have nf: "\<not> F (FaceSave k)" by blast
        from loopPost_step[OF True st kn(1,2) ok(1)[OF ok1] ok(2)[OF ok1] nf r(4)]
        have "loopPost F k (c # cs) w ok w'" .
        with r(1-3) f(1) show ?thesis unfolding eq by simp
      qed
    qed
  qed
qed

subsection \<open>The completion route\<close>

lemma complete_result:
  assumes j: "findJobById (jobs d) jid = Some j" and a: "canComplete u j"
  shows "\<exists>ok n1 w1. loopPost F 0 (j_clusters j) d ok w1
     \<and> complete F d n now u jid =
         (if ok \<and> \<not> F JobSave \<and> \<not> F CommitTransaction
          then (Inr (jid, True),
                w1\<lparr>jobs := saveJob (j\<lparr>j_isLabeled := True, j_updatedAt := now\<rparr>) (jobs w1)\<rparr>,
                n1)
          else (Inl ServerError, d, n1))"
proof -
  let ?s0 = "startTransaction (startSession d)"
  have s0: "s_working ?s0 = Some d" by simp
  from completeLoop_post[OF s0, of F now u 0 "j_clusters j" n] obtain ok s1 n1 w1 where
    r: "completeLoop F now u 0 (j_clusters j) ?s0 n = (ok, s1, n1)"
    and c: "s_committed s1 = s_committed ?s0" and w: "s_working s1 = Some w1"
    and p: "loopPost F 0 (j_clusters j) d ok w1" by blast
  from c have c': "s_committed s1 = d" by simp
  have "complete F d n now u jid =
         (if ok \<and> \<not> F JobSave \<and> \<not> F CommitTransaction
          then (Inr (jid, True),
                w1\<lparr>jobs := saveJob (j\<lparr>j_isLabeled := True, j_updatedAt := now\<rparr>) (jobs w1)\<rparr>,
                n1)
          else (Inl ServerError, d, n1))"
    using j a r c' w findJobById_id[OF j]
    by (simp add: complete_def Let_def txWrite_working commit_working)
  with p show ?thesis by blast
qed

lemma complete_early:
  assumes "findJobById (jobs d) jid = None \<or>
           (\<exists>j. findJobById (jobs d) jid = Some j \<and> \<not> canComplete u j)"
  shows "isl (fst (complete F d n now u jid)) \<and> fst (snd (complete F d n now u jid)) = d"
  using assms by (auto simp: complete_def)

lemma complete_rollback:
  "isl (fst (complete F d n now u jid)) \<Longrightarrow> fst (snd (complete F d n now u jid)) = d"
proof (cases "findJobById (jobs d) jid")
  case None
  then show ?thesis using complete_early[of d jid u F n now] by simp
next
  case (Some j)
  assume i: "isl (fst (complete F d n now u jid))"
  show ?thesis
  proof (cases "canComplete u j")
    case False
    with Some show ?thesis using complete_early[of d jid u F n now] by simp
  next
    case True
    from complete_result[OF Some True, of F n now] obtain ok n1 w1 where
      "complete F d n now u jid =
         (if ok \<and> \<not> F JobSave \<and> \<not> F CommitTransaction
          then (Inr (jid, True),
                w1\<lparr>jobs := saveJob (j\<lparr>j_isLabeled := True, j_updatedAt := now\<rparr>) (jobs w1)\<rparr>,
                n1)
          else (Inl ServerError, d, n1))" by blast
    with i show ?thesis by (cases "ok \<and> \<not> F JobSave \<and> \<not> F CommitTransaction") simp_all
  qed
qed

lemma complete_success:
  assumes r: "fst (complete F d n now u jid) = Inr r"
    and j: "findJobById (jobs d) jid = Some j"
  shows "\<exists>w1. loopPost F 0 (j_clusters j) d True w1
     \<and> fst (snd (complete F d n now u jid))
         = w1\<lparr>jobs := saveJob (j\<lparr>j_isLabeled := True, j_updatedAt := now\<rparr>) (jobs w1)\<rparr>
     \<and> canComplete u j"
proof -
  have a: "canComplete u j"
  proof (rule ccontr)
    assume "\<not> canComplete u j"
    with j complete_early[of d jid u F n now] r show False by auto
  qed
  from complete_result[OF j a, of F n now] obtain ok n1 w1 where
    p: "loopPost F 0 (j_clusters j) d ok w1"
    and e: "complete F d n now u jid =
         (if ok \<and> \<not> F JobSave \<and> \<not> F CommitTransaction
          then (Inr (jid, True),
                w1\<lparr>jobs := saveJob (j\<lparr>j_isLabeled := True, j_updatedAt := now\<rparr>) (jobs w1)\<rparr>,
                n1)
          else (Inl ServerError, d, n1))" by blast
  from r e have ok: "ok \<and> \<not> F JobSave \<and> \<not> F CommitTransaction"
    by (auto split: if_splits)
  with e p a show ?thesis by auto
qed

lemma complete_face_fault:
  assumes j: "findJobById (jobs d) jid = Some j"
    and i: "i < length (j_clusters j)" "promotable (j_clusters j ! i)" "F (FaceSave i)"
  shows "isl (fst (complete F d n now u jid))"
proof (cases "canComplete u j")
  case False
  with j show ?thesis using complete_early[of d jid u F n now] by simp
next
  case True
  from complete_result[OF j True, of F n now] obtain ok n1 w1 where
    p: "loopPost F 0 (j_clusters j) d ok w1"
    and e: "complete F d n now u jid =
         (if ok \<and> \<not> F JobSave \<and> \<not> F CommitTransaction
          then (Inr (jid, True),
                w1\<lparr>jobs := saveJob (j\<lparr>j_isLabeled := True, j_updatedAt := now\<rparr>) (jobs w1)\<rparr>,
                n1)
          else (Inl ServerError, d, n1))" by blast
  from p i have "\<not> ok" by (simp add: loopPost_def)
  with e show ?thesis by simp
qed

subsection \<open>The verification route, end to end\<close>

lemma verifyFace_rollback:
  "isl (fst (verifyFace F d fresh now u fid rq)) \<Longrightarrow> snd (verifyFace F d fresh now u fid rq) = d"
  using verifyTry_rollback[where s = "startTransaction (startSession d)" and d = d and F = F
      and fresh = fresh and now = now and u = u and fid = fid and rq = rq]
  by (auto simp: verifyFace_def endSession_def abortTransaction_def
      split: prod.splits flow.splits)

lemma verifyFace_face_fault:
  "F (FaceSave 0) \<Longrightarrow> isl (fst (verifyFace F d fresh now u fid rq))"
  using verifyTry_rollback[where s = "startTransaction (startSession d)" and d = d and F = F
      and fresh = fresh and now = now and u = u and fid = fid and rq = rq]
  by (auto simp: verifyFace_def split: prod.splits flow.splits)

lemma verifyFace_success:
  assumes "fst (verifyFace F d fresh now u fid rq) = Inr f"
  shows "faces (snd (verifyFace F d fresh now u fid rq)) = saveFace f (faces d)
     \<and> jobs (snd (verifyFace F d fresh now u fid rq)) = jobs d
     \<and> f_verificationStatus f = the (vr_status rq)
     \<and> employees (snd (verifyFace F d fresh now u fid rq)) = employees d @
          (if createsPerson rq ''employee''
           then [\<lparr>e_id = fresh, e_name = trim (the (vr_selectedLabel rq)),
                  e_faceId = f_id f, e_joiningDate = now\<rparr>] else [])
     \<and> map v_id (visitors (snd (verifyFace F d fresh now u fid rq))) = map v_id (visitors d) @
          (if createsPerson rq ''visitor'' then [fresh] else [])
     \<and> map v_faceId (visitors (snd (verifyFace F d fresh now u fid rq)))
          = map v_faceId (visitors d) @
          (if createsPerson rq ''visitor'' then [Some (f_id f)] else [])
     \<and> map v_name (visitors (snd (verifyFace F d fresh now u fid rq)))
          = map v_name (visitors d) @
          (if createsPerson rq ''visitor'' then [trim (the (vr_selectedLabel rq))] else [])
     \<and> (createsPerson rq ''employee'' \<or> createsPerson rq ''visitor''
          \<longrightarrow> f_personId f = fresh \<and> Some (f_personType f) = vr_personType rq)"
proof -
  let ?s0 = "startTransaction (startSession d)"
  obtain r s' where t: "verifyTry F fresh now u fid rq ?s0 = (r, s')"
    by (cases "verifyTry F fresh now u fid rq ?s0") auto
  from assms t have r: "r = Done f" and e: "snd (verifyFace F d fresh now u fid rq) = endSession s'"
    by (auto simp: verifyFace_def split: if_splits flow.splits)
  from verifyTry_commit[where s = ?s0 and d = d and F = F and fresh = fresh and now = now
      and u = u and fid = fid and rq = rq] t r
  show ?thesis unfolding e endSession_def by simp
qed

lemmas complete_defs = complete_def completeCluster_def promoteCluster_def newFace_def
  txWrite_def txDb_def startTransaction_def startSession_def commitTransaction_def
  abortTransaction_def endSession_def findJobById_def canComplete_def noRepresentative_def
  findEmployeeByName_def findVisitorByName_def visitorExistsWithFace_def updateVisitorFace_def
  saveJob_def trim_def isSpace_def Let_def

lemmas exLabeled_defs = exDbLabeled_def exJobLabeled_def exClusterLabeled_def

subsection \<open>Atomicity of promotion\<close>

text \<open>
  Claim C2: whichever store writes fail, a verification or completion call that answers
  with an error leaves the database exactly as it was; a call that succeeds has made
  all of its writes (the face, the person it created, and for completion one face per
  promotable cluster, a resolved person for each of their labels, and the job's
  \<^verbatim>\<open>isLabeled\<close> flag).  In particular a call whose face save fails never succeeds, so a
  person saved just before it is not kept.
\<close>

theorem promotion_atomic:
  "(isl (fst (verifyFace F d fresh now u fid rq)) \<longrightarrow>
      snd (verifyFace F d fresh now u fid rq) = d)
   \<and> (F (FaceSave 0) \<longrightarrow> isl (fst (verifyFace F d fresh now u fid rq)))
   \<and> (\<forall>f. fst (verifyFace F d fresh now u fid rq) = Inr f \<longrightarrow>
        faces (snd (verifyFace F d fresh now u fid rq)) = saveFace f (faces d)
        \<and> employees (snd (verifyFace F d fresh now u fid rq)) = employees d @
             (if createsPerson rq ''employee''
              then [\<lparr>e_id = fresh, e_name = trim (the (vr_selectedLabel rq)),
                     e_faceId = f_id f, e_joiningDate = now\<rparr>] else [])
        \<and> map v_id (visitors (snd (verifyFace F d fresh now u fid rq))) = map v_id (visitors d) @
             (if createsPerson rq ''visitor'' then [fresh] else [])
        \<and> map v_faceId (visitors (snd (verifyFace F d fresh now u fid rq)))
             = map v_faceId (visitors d) @
             (if createsPerson rq ''visitor'' then [Some (f_id f)] else [])
        \<and> (createsPerson rq ''employee'' \<or> createsPerson rq ''visitor''
             \<longrightarrow> f_personId f = fresh \<and> Some (f_personType f) = vr_personType rq))
   \<and> (isl (fst (complete G e n now' u' jid)) \<longrightarrow> fst (snd (complete G e n now' u' jid)) = e)
   \<and> (\<forall>j i. findJobById (jobs e) jid = Some j \<and> i < length (j_clusters j)
          \<and> promotable (j_clusters j ! i) \<and> G (FaceSave i) \<longrightarrow>
        isl (fst (complete G e n now' u' jid)))
   \<and> (\<forall>r j. fst (complete G e n now' u' jid) = Inr r \<and> findJobById (jobs e) jid = Some j \<longrightarrow>
        findJobById (jobs (fst (snd (complete G e n now' u' jid)))) jid
          = Some (j\<lparr>j_isLabeled := True, j_updatedAt := now'\<rparr>)
        \<and> length (faces (fst (snd (complete G e n now' u' jid))))
          = length (faces e) + length (filter promotable (j_clusters j))
        \<and> labelsKnown (fst (snd (complete G e n now' u' jid))) (j_clusters j))"
proof (intro conjI allI impI)
  show "snd (verifyFace F d fresh now u fid rq) = d"
    if "isl (fst (verifyFace F d fresh now u fid rq))"
    using that by (rule verifyFace_rollback)
  show "isl (fst (verifyFace F d fresh now u fid rq))" if "F (FaceSave 0)"
    using that by (rule verifyFace_face_fault)
  show "fst (snd (complete G e n now' u' jid)) = e" if "isl (fst (complete G e n now' u' jid))"
    using that by (rule complete_rollback)
  show "isl (fst (complete G e n now' u' jid))"
    if "findJobById (jobs e) jid = Some j \<and> i < length (j_clusters j)
          \<and> promotable (j_clusters j ! i) \<and> G (FaceSave i)" for j i
    using that complete_face_fault[of e jid j i G n now' u'] by blast
next
  fix f assume a: "fst (verifyFace F d fresh now u fid rq) = Inr f"
  note s = verifyFace_success[OF a]
  from s show "faces (snd (verifyFace F d fresh now u fid rq)) = saveFace f (faces d)" by blast
  from s show "employees (snd (verifyFace F d fresh now u fid rq)) = employees d @
             (if createsPerson rq ''employee''
              then [\<lparr>e_id = fresh, e_name = trim (the (vr_selectedLabel rq)),
                     e_faceId = f_id f, e_joiningDate = now\<rparr>] else [])" by blast
  from s show "map v_id (visitors (snd (verifyFace F d fresh now u fid rq))) = map v_id (visitors d) @
             (if createsPerson rq ''visitor'' then [fresh] else [])" by blast
  from s show "map v_faceId (visitors (snd (verifyFace F d fresh now u fid rq)))
             = map v_faceId (visitors d) @
             (if createsPerson rq ''visitor'' then [Some (f_id f)] else [])" by blast
  from s show "f_personId f = fresh" "Some (f_personType f) = vr_personType rq"
    if "createsPerson rq ''employee'' \<or> createsPerson rq ''visitor''"
    using that by blast+
next
  fix r j
  assume a: "fst (complete G e n now' u' jid) = Inr r \<and> findJobById (jobs e) jid = Some j"
  then have j: "findJobById (jobs e) jid = Some j" by simp
  from a complete_success[of G e n now' u' jid r j] obtain w1 where
    p: "loopPost G 0 (j_clusters j) e True w1"
    and e1: "fst (snd (complete G e n now' u' jid))
         = w1\<lparr>jobs := saveJob (j\<lparr>j_isLabeled := True, j_updatedAt := now'\<rparr>) (jobs w1)\<rparr>"
    by blast
  from p have q: "jobs w1 = jobs e" "employees w1 = employees e"
    "length (faces w1) = length (faces e) + length (filter promotable (j_clusters j))"
    "labelsKnown w1 (j_clusters j)"
    by (simp_all add: loopPost_def)
  show "findJobById (jobs (fst (snd (complete G e n now' u' jid)))) jid
          = Some (j\<lparr>j_isLabeled := True, j_updatedAt := now'\<rparr>)"
    unfolding e1 using find_saveJob[OF j, of "j\<lparr>j_isLabeled := True, j_updatedAt := now'\<rparr>"]
      findJobById_id[OF j] q(1) by simp
  show "length (faces (fst (snd (complete G e n now' u' jid))))
          = length (faces e) + length (filter promotable (j_clusters j))"
    unfolding e1 using q(3) by simp
  show "labelsKnown (fst (snd (complete G e n now' u' jid))) (j_clusters j)"
    unfolding e1 using q(4) by (simp add: labelsKnown_def knownName_def)
qed

text \<open>
  Claim C2 under fault injection: the visitor save succeeds and the face save fails, in
  a verification that creates a visitor and in a completion that would create one; for
  comparison, the same verification without the fault keeps the visitor.
\<close>

theorem promotion_atomic_witness:
  "faceFault (FaceSave 0) \<and> \<not> faceFault (VisitorSave 0)
   \<and> verifyFace faceFault exDb 30 5 exReviewer 10 exVerifyCreate = (Inl ServerError, exDb)
   \<and> fst (complete faceFault exDbLabeled 30 7 exUploader 21) = Inl ServerError
   \<and> fst (snd (complete faceFault exDbLabeled 30 7 exUploader 21)) = exDbLabeled
   \<and> visitors (snd (verifyFace noFault exDb 30 5 exReviewer 10 exVerifyCreate))
       = [\<lparr>v_id = 30, v_name = ''Alice'', v_faceId = Some 10, v_purpose = ''General Visit'',
           v_createdAt = 5\<rparr>]"
proof -
  have ff: "faceFault (FaceSave 0)" "\<not> faceFault (VisitorSave 0)"
    by (simp_all add: faceFault_def)
  have j: "findJobById (jobs exDbLabeled) 21 = Some exJobLabeled
      \<and> 0 < length (j_clusters exJobLabeled) \<and> promotable (j_clusters exJobLabeled ! 0)
      \<and> faceFault (FaceSave 0)"
    by (simp add: exLabeled_defs ex_defs findJobById_def promotable_def noRepresentative_def
        faceFault_def)
  note t = promotion_atomic[of faceFault exDb 30 5 exReviewer 10 exVerifyCreate
      faceFault exDbLabeled 30 7 exUploader 21]
  from t ff(1) have v: "snd (verifyFace faceFault exDb 30 5 exReviewer 10 exVerifyCreate) = exDb"
    by blast
  from t j have c: "isl (fst (complete faceFault exDbLabeled 30 7 exUploader 21))"
    "fst (snd (complete faceFault exDbLabeled 30 7 exUploader 21)) = exDbLabeled"
    by blast+
  have v1: "fst (verifyFace faceFault exDb 30 5 exReviewer 10 exVerifyCreate) = Inl ServerError"
    by (simp add: verifyFace_def verifyTry_def verifyFinish_def exVerifyCreate_def ex_defs
        faceFault_def findFaceById_def validPersonType_def trim_def isSpace_def
        txWrite_def txDb_def startTransaction_def startSession_def Let_def)
  have c1: "fst (complete faceFault exDbLabeled 30 7 exUploader 21) = Inl ServerError"
    by (simp add: complete_defs exLabeled_defs ex_defs faceFault_def)
  have v2: "visitors (snd (verifyFace noFault exDb 30 5 exReviewer 10 exVerifyCreate))
       = [\<lparr>v_id = 30, v_name = ''Alice'', v_faceId = Some 10, v_purpose = ''General Visit'',
           v_createdAt = 5\<rparr>]"
    by (simp add: verifyFace_def verifyTry_def verifyFinish_def exVerifyCreate_def ex_defs
        noFault_def findFaceById_def validPersonType_def trim_def isSpace_def saveFace_def
        txWrite_def txDb_def startTransaction_def startSession_def commitTransaction_def
        endSession_def Let_def)
  from ff v v1 c c1 v2 show ?thesis by (simp add: prod_eq_iff)
qed

subsection \<open>Calling completion twice\<close>




subsection \<open>The back-link of a visitor created by completion\<close>

text \<open>
  Claim C7, evaluated: completing \<open>exJobLabeled\<close>, whose one cluster is labelled
  \<^verbatim>\<open>Alice\<close> while no employee or visitor has that name, succeeds and creates visitor 32
  and face 33.  The face points to the visitor; the visitor's \<^verbatim>\<open>faceId\<close> is still the
  placeholder 31 it was constructed with, which is the \<^verbatim>\<open>_id\<close> of no face, because the
  guard of the back-link update finds the new visitor itself.
\<close>

theorem complete_new_visitor_backlink:
  "fst (complete noFault exDbLabeled 30 7 exUploader 21) = Inr (21, True)
   \<and> map (\<lambda>f. (f_id f, f_personType f, f_personId f))
        (faces (fst (snd (complete noFault exDbLabeled 30 7 exUploader 21))))
      = [(10, ''unknown'', 11), (33, ''visitor'', 32)]
   \<and> map (\<lambda>v. (v_id v, v_name v, v_faceId v))
        (visitors (fst (snd (complete noFault exDbLabeled 30 7 exUploader 21))))
      = [(32, ''Alice'', Some 31)]
   \<and> findFaceById (faces (fst (snd (complete noFault exDbLabeled 30 7 exUploader 21)))) 31 = None"
  by (simp add: complete_defs exLabeled_defs ex_defs noFault_def findFaceById_def)

text \<open>
  Claim C7, the consequence for bidirectional consistency: after that call no visitor's
  \<^verbatim>\<open>faceId\<close> is the \<^verbatim>\<open>_id\<close> of any face.
\<close>

theorem complete_new_visitor_backlink_witness:
  "list_all (\<lambda>v. list_all (\<lambda>f. v_faceId v \<noteq> Some (f_id f))
               (faces (fst (snd (complete noFault exDbLabeled 30 7 exUploader 21)))))
     (visitors (fst (snd (complete noFault exDbLabeled 30 7 exUploader 21))))"
proof -
  let ?d1 = "fst (snd (complete noFault exDbLabeled 30 7 exUploader 21))"
  from complete_new_visitor_backlink
  have fs: "map (\<lambda>f. (f_id f, f_personType f, f_personId f)) (faces ?d1)
      = [(10, ''unknown'', 11), (33, ''visitor'', 32)]"
    and vs: "map (\<lambda>v. (v_id v, v_name v, v_faceId v)) (visitors ?d1) = [(32, ''Alice'', Some 31)]"
    by blast+
  have "v_faceId v = Some 31" if "v \<in> set (visitors ?d1)" for v
  proof -
    from that have "(v_id v, v_name v, v_faceId v)
        \<in> set (map (\<lambda>v. (v_id v, v_name v, v_faceId v)) (visitors ?d1))" by simp
    then show ?thesis unfolding vs by simp
  qed
  moreover have "f_id f \<noteq> 31" if "f \<in> set (faces ?d1)" for f
  proof -
    from that have "(f_id f, f_personType f, f_personId f)
        \<in> set (map (\<lambda>f. (f_id f, f_personType f, f_personId f)) (faces ?d1))" by simp
    then show ?thesis unfolding fs by auto
  qed
  ultimately show ?thesis by (auto simp: list_all_iff)
qed

subsection \<open>Status transitions of extraction jobs\<close>

lemma jobTransition_refl: "jobTransition j j"
  by (simp add: jobTransition_def)

lemma jobsTransition_refl: "jobsTransition js js"
  by (simp add: jobsTransition_def jobTransition_refl)

lemma jobsTransition_update:
  assumes "k < length js" and "jobTransition (js ! k) j'"
  shows "jobsTransition js (list_update js k j')"
  using assms by (auto simp: jobsTransition_def nth_list_update jobTransition_refl)

lemma updateJob_ids:
  assumes "\<And>x. j_id (g x) = j_id x"
  shows "map j_id (updateJob i g js) = map j_id js"
proof (cases "findIndex (\<lambda>j. j_id j = i) js")
  case None then show ?thesis by (simp add: updateJob_def)
next
  case (Some k)
  from findIndex_Some[OF Some] have "k < length js" by simp
  with Some assms show ?thesis
    by (simp add: updateJob_def map_update list_update_same_conv)
qed

lemma updateJob_other:
  assumes "x \<in> set (updateJob i g js)" and "j_id x \<noteq> i" and "\<And>x. j_id (g x) = j_id x"
  shows "x \<in> set js"
proof (cases "findIndex (\<lambda>j. j_id j = i) js")
  case None with assms show ?thesis by (simp add: updateJob_def)
next
  case (Some k)
  from findIndex_Some[OF Some] have k: "k < length js" "j_id (js ! k) = i" by auto
  from assms(1) Some have "x \<in> set (list_update js k (g (js ! k)))" by (simp add: updateJob_def)
  then have "x = g (js ! k) \<or> x \<in> set js"
    using set_update_subset_insert[of js k "g (js ! k)"] by auto
  with assms(2,3) k show ?thesis by auto
qed

lemma updateJob_transition:
  assumes "\<And>x. j_id (g x) = j_id x"
    and "\<And>x. j_status (g x) = Completed \<or> j_status (g x) = Failed"
    and "\<forall>j\<in>set js. j_id j = i \<longrightarrow> j_status j = Processing"
  shows "jobsTransition js (updateJob i g js)"
proof (cases "findIndex (\<lambda>j. j_id j = i) js")
  case None then show ?thesis by (simp add: updateJob_def jobsTransition_refl)
next
  case (Some k)
  from findIndex_Some[OF Some] have k: "k < length js" "j_id (js ! k) = i" by auto
  with assms(3) have "j_status (js ! k) = Processing" by auto
  with assms(1,2) have "jobTransition (js ! k) (g (js ! k))"
    by (simp add: jobTransition_def)
  from jobsTransition_update[OF k(1) this] Some show ?thesis by (simp add: updateJob_def)
qed

lemma continuation_unfold:
  "\<exists>g. (\<forall>x. j_id (g x) = j_id x) \<and> (\<forall>x. j_status (g x) = Completed \<or> j_status (g x) = Failed)
       \<and> (continuation F now j out js = js \<or> continuation F now j out js = updateJob (j_id j) g js)"
proof -
  let ?fail = "\<lambda>msg x. x\<lparr>j_status := Failed, j_processingMessage := ''Error processing file: '' @ msg,
                     j_updatedAt := now\<rparr>"
  have c: "catchUpdate F now j msg js = js \<or> catchUpdate F now j msg js = updateJob (j_id j) (?fail msg) js"
    for msg by (simp add: catchUpdate_def)
  have t: "\<exists>g'. (\<forall>x. j_id (g' x) = j_id x)
         \<and> (\<forall>x. j_status (g' x) = Completed \<or> j_status (g' x) = Failed)
         \<and> (tryUpdate F now j g js = js \<or> tryUpdate F now j g js = updateJob (j_id j) g' js)"
    if "\<forall>x. j_id (g x) = j_id x" "\<forall>x. j_status (g x) = Completed \<or> j_status (g x) = Failed" for g
  proof (cases "F (JobUpdate 0)")
    case True
    with c[of storeError] show ?thesis
      by (intro exI[of _ "?fail storeError"]) (simp add: tryUpdate_def)
  next
    case False
    with that show ?thesis by (intro exI[of _ g]) (simp add: tryUpdate_def)
  qed
  show ?thesis
  proof (cases out)
    case (Rejected msg)
    with c[of msg] show ?thesis
      by (intro exI[of _ "?fail msg"]) (simp add: continuation_def)
  next
    case (Resolved r)
    then show ?thesis
      unfolding continuation_def
      by (simp del: falsy.simps) (intro conjI impI t; simp)
  qed
qed

lemma continuation_props:
  assumes "\<forall>x\<in>set js. j_id x = j_id j \<longrightarrow> j_status x = Processing"
  shows "jobsTransition js (continuation F now j out js)
    \<and> map j_id (continuation F now j out js) = map j_id js
    \<and> (\<forall>x\<in>set (continuation F now j out js). j_id x \<noteq> j_id j \<longrightarrow> x \<in> set js)"
proof -
  from continuation_unfold[of F now j out js] obtain g where
    g: "\<And>x. j_id (g x) = j_id x" "\<And>x. j_status (g x) = Completed \<or> j_status (g x) = Failed"
    and c: "continuation F now j out js = js \<or> continuation F now j out js = updateJob (j_id j) g js"
    by blast
  from c show ?thesis
  proof
    assume "continuation F now j out js = js"
    then show ?thesis by (simp add: jobsTransition_refl)
  next
    assume e: "continuation F now j out js = updateJob (j_id j) g js"
    show ?thesis unfolding e
      using updateJob_transition[of g js "j_id j", OF g assms] updateJob_ids[of g "j_id j" js, OF g(1)]
        updateJob_other[of _ "j_id j" g js, OF _ _ g(1)]
      by blast
  qed
qed

lemma distinct_ids_eq:
  "distinct (map j_id js) \<Longrightarrow> x \<in> set js \<Longrightarrow> y \<in> set js \<Longrightarrow> j_id x = j_id y \<Longrightarrow> x = y"
  by (meson distinct_map inj_onD)

lemma saveJob_props:
  assumes d: "distinct (map j_id js)" and f: "findJobById js i = Some j"
    and i: "j_id j' = j_id j" and t: "jobTransition j j'"
  shows "jobsTransition js (saveJob j' js) \<and> map j_id (saveJob j' js) = map j_id js
    \<and> (\<forall>x\<in>set (saveJob j' js). x \<in> set js \<or> x = j')"
proof -
  from f have jm: "j \<in> set js" by (simp add: findJobById_def find_Some_set)
  have same: "x = j" if "x \<in> set js" "j_id x = j_id j'" for x
    using distinct_ids_eq[OF d that(1) jm] that(2) i by simp
  have "jobTransition (js ! k) (saveJob j' js ! k)" if "k < length js" for k
  proof (cases "j_id (js ! k) = j_id j'")
    case True
    with same[of "js ! k"] that have "js ! k = j" by simp
    with True that t show ?thesis by (simp add: saveJob_def)
  next
    case False
    with that show ?thesis by (simp add: saveJob_def jobTransition_refl)
  qed
  then have "jobsTransition js (saveJob j' js)"
    by (simp add: jobsTransition_def saveJob_def)
  moreover have "map j_id (saveJob j' js) = map j_id js"
    by (induction js) (auto simp: saveJob_def)
  moreover have "\<forall>x\<in>set (saveJob j' js). x \<in> set js \<or> x = j'"
    by (auto simp: saveJob_def)
  ultimately show ?thesis by blast
qed

lemma stripLabels_update:
  assumes "ci < length cs" and "stripLabels c' = stripLabels (cs ! ci)"
  shows "map stripLabels (list_update cs ci c') = map stripLabels cs"
  using assms by (simp add: map_update list_update_same_conv)

lemma labelCluster_jobs:
  assumes d: "distinct (map j_id (jobs db0))"
  shows "jobs (snd (labelCluster db0 now u jid cid l)) = jobs db0
    \<or> (\<exists>j j'. findJobById (jobs db0) jid = Some j \<and> j_id j' = j_id j \<and> j_status j' = j_status j
          \<and> frozenPart j' = frozenPart j
          \<and> jobs (snd (labelCluster db0 now u jid cid l)) = saveJob j' (jobs db0))"
proof (cases "fst (labelCluster db0 now u jid cid l)")
  case (Inl e)
  then have "snd (labelCluster db0 now u jid cid l) = db0"
    by (auto simp: labelCluster_def Let_def split: if_splits option.splits)
  then show ?thesis by simp
next
  case (Inr c')
  then obtain j ci where j: "findJobById (jobs db0) jid = Some j"
    and ci: "findIndex (\<lambda>c. c_clusterId c = cid) (j_clusters j) = Some ci"
    by (auto simp: labelCluster_def split: if_splits option.splits)
  let ?j' = "j\<lparr>j_clusters := list_update (j_clusters j) ci c', j_updatedAt := now\<rparr>"
  from Inr j ci have e: "snd (labelCluster db0 now u jid cid l) = db0\<lparr>jobs := saveJob ?j' (jobs db0)\<rparr>"
    and s: "stripLabels c' = stripLabels (j_clusters j ! ci)"
    by (auto simp: labelCluster_def Let_def stripLabels_def split: if_splits)
  from findIndex_Some[OF ci] have "ci < length (j_clusters j)" by simp
  from stripLabels_update[OF this s] have "frozenPart ?j' = frozenPart j"
    by (simp add: frozenPart_def)
  with j e show ?thesis by (intro disjI2 exI[of _ j] exI[of _ ?j']) simp
qed

lemma complete_jobs:
  "jobs (fst (snd (complete F db0 n now u jid))) = jobs db0
    \<or> (\<exists>j j'. findJobById (jobs db0) jid = Some j \<and> j_id j' = j_id j \<and> j_status j' = j_status j
          \<and> frozenPart j' = frozenPart j
          \<and> jobs (fst (snd (complete F db0 n now u jid))) = saveJob j' (jobs db0))"
proof (cases "fst (complete F db0 n now u jid)")
  case (Inl e)
  then have "isl (fst (complete F db0 n now u jid))" by simp
  from complete_rollback[OF this] show ?thesis by simp
next
  case (Inr r)
  then obtain j where j: "findJobById (jobs db0) jid = Some j"
    by (cases "findJobById (jobs db0) jid") (auto simp: complete_def)
  let ?j' = "j\<lparr>j_isLabeled := True, j_updatedAt := now\<rparr>"
  from complete_success[OF Inr j] obtain w1 where
    p: "loopPost F 0 (j_clusters j) db0 True w1"
    and e: "fst (snd (complete F db0 n now u jid)) = w1\<lparr>jobs := saveJob ?j' (jobs w1)\<rparr>"
    by blast
  from p have "jobs w1 = jobs db0" by (simp add: loopPost_def)
  with e have "jobs (fst (snd (complete F db0 n now u jid))) = saveJob ?j' (jobs db0)" by simp
  moreover have "frozenPart ?j' = frozenPart j" by (simp add: frozenPart_def)
  ultimately show ?thesis using j by (intro disjI2 exI[of _ j] exI[of _ ?j']) simp
qed

lemma proposeFaceLabel_jobs: "jobs (snd (proposeFaceLabel db0 now u fid l)) = jobs db0"
  by (simp add: proposeFaceLabel_def Let_def split: option.split)

lemma verifyFace_jobs: "jobs (snd (verifyFace F db0 fresh now u fid rq)) = jobs db0"
proof (cases "fst (verifyFace F db0 fresh now u fid rq)")
  case (Inl e)
  then have "isl (fst (verifyFace F db0 fresh now u fid rq))" by simp
  from verifyFace_rollback[OF this] show ?thesis by simp
next
  case (Inr f)
  from verifyFace_success[OF this] show ?thesis by blast
qed

text \<open>A step that leaves the jobs alone or saves one of them with its status and
  frozen part unchanged keeps the invariant and is a legal transition.\<close>

lemma quiet_step:
  assumes inv: "awaitingInv s"
    and q: "jobs d' = jobs (sys_db s)
      \<or> (\<exists>j j'. findJobById (jobs (sys_db s)) jid = Some j \<and> j_id j' = j_id j
            \<and> j_status j' = j_status j \<and> frozenPart j' = frozenPart j
            \<and> jobs d' = saveJob j' (jobs (sys_db s)))"
  shows "awaitingInv (s\<lparr>sys_db := d'\<rparr>) \<and> jobsTransition (jobs (sys_db s)) (jobs d')"
  using q
proof
  assume "jobs d' = jobs (sys_db s)"
  with inv show ?thesis by (simp add: awaitingInv_def jobsTransition_refl)
next
  assume "\<exists>j j'. findJobById (jobs (sys_db s)) jid = Some j \<and> j_id j' = j_id j
            \<and> j_status j' = j_status j \<and> frozenPart j' = frozenPart j
            \<and> jobs d' = saveJob j' (jobs (sys_db s))"
  then obtain j j' where j: "findJobById (jobs (sys_db s)) jid = Some j"
    and i: "j_id j' = j_id j" and st: "j_status j' = j_status j"
    and fr: "frozenPart j' = frozenPart j" and e: "jobs d' = saveJob j' (jobs (sys_db s))"
    by blast
  from inv have d: "distinct (map j_id (jobs (sys_db s)))" by (simp add: awaitingInv_def)
  have t: "jobTransition j j'" using i st fr by (simp add: jobTransition_def)
  from saveJob_props[OF d j i t] have
    tr: "jobsTransition (jobs (sys_db s)) (saveJob j' (jobs (sys_db s)))"
    and ids: "map j_id (saveJob j' (jobs (sys_db s))) = map j_id (jobs (sys_db s))"
    and mem: "\<forall>x\<in>set (saveJob j' (jobs (sys_db s))). x \<in> set (jobs (sys_db s)) \<or> x = j'"
    by blast+
  from j have jm: "j \<in> set (jobs (sys_db s))" by (simp add: findJobById_def find_Some_set)
  have "j_status x = Processing"
    if "x \<in> set (saveJob j' (jobs (sys_db s)))" "j_id x \<in> set (map j_id (sys_awaiting s))" for x
  proof -
    from mem that(1) have "x \<in> set (jobs (sys_db s)) \<or> x = j'" by blast
    then show ?thesis
    proof
      assume "x \<in> set (jobs (sys_db s))"
      with inv that(2) show ?thesis by (simp add: awaitingInv_def)
    next
      assume "x = j'"
      with that(2) i have "j_id j \<in> set (map j_id (sys_awaiting s))" by simp
      with inv jm have "j_status j = Processing" by (simp add: awaitingInv_def)
      with st \<open>x = j'\<close> show ?thesis by simp
    qed
  qed
  then have a: "\<forall>x\<in>set (jobs d'). j_id x \<in> set (map j_id (sys_awaiting s))
        \<longrightarrow> j_status x = Processing"
    unfolding e by blast
  from ids have ids': "map j_id (jobs d') = map j_id (jobs (sys_db s))" unfolding e .
  from inv have b: "distinct (map j_id (jobs d'))" "distinct (map j_id (sys_awaiting s))"
    "set (map j_id (sys_awaiting s)) \<subseteq> set (map j_id (jobs d'))"
    unfolding ids' by (simp_all only: awaitingInv_def)
  have "awaitingInv (s\<lparr>sys_db := d'\<rparr>)"
    unfolding awaitingInv_def using a b by simp
  moreover from tr have "jobsTransition (jobs (sys_db s)) (jobs d')" unfolding e .
  ultimately show ?thesis by blast
qed

lemma distinct_map_remove1:
  "distinct (map f xs) \<Longrightarrow> distinct (map f (remove1 x xs))"
proof (induction xs)
  case Nil then show ?case by simp
next
  case (Cons a xs)
  have "set (remove1 x xs) \<subseteq> set xs" by (rule set_remove1_subset)
  with Cons show ?case by auto
qed

lemma removed_id_gone:
  "distinct (map f xs) \<Longrightarrow> x \<in> set xs \<Longrightarrow> f x \<notin> set (map f (remove1 x xs))"
proof (induction xs)
  case Nil then show ?case by simp
next
  case (Cons a xs)
  have sub: "set (remove1 x xs) \<subseteq> set xs" by (rule set_remove1_subset)
  from Cons.prems have na: "f a \<notin> f ` set xs" and dx: "distinct (map f xs)" by simp_all
  show ?case
  proof (cases "x = a")
    case True with na show ?thesis by simp
  next
    case False
    with Cons.prems have xm: "x \<in> set xs" by simp
    then have "f x \<in> f ` set xs" by (rule imageI)
    with na have "f x \<noteq> f a" by metis
    moreover from Cons.IH[OF dx xm] have "f x \<notin> f ` set (remove1 x xs)" by simp
    ultimately show ?thesis using False by simp
  qed
qed

lemma start_step:
  assumes inv: "awaitingInv s"
    and st: "startJob (sys_db s) fileOid jobOid now u file sid = (Inr j, d')"
    and fresh: "jobOid \<notin> set (map j_id (jobs (sys_db s)))"
  shows "awaitingInv \<lparr>sys_db = d', sys_awaiting = j # sys_awaiting s\<rparr>
    \<and> jobsTransition (jobs (sys_db s)) (jobs d')"
proof -
  from st have e: "jobs d' = jobs (sys_db s) @ [j]" and i: "j_id j = jobOid"
    and p: "j_status j = Processing"
    by (auto simp: startJob_def Let_def split: option.splits if_splits)
  have "jobsTransition (jobs (sys_db s)) (jobs (sys_db s) @ [j])"
    using p by (auto simp: jobsTransition_def nth_append jobTransition_refl less_Suc_eq)
  moreover have "awaitingInv \<lparr>sys_db = d', sys_awaiting = j # sys_awaiting s\<rparr>"
  proof -
    from inv have d: "distinct (map j_id (jobs (sys_db s)))" "distinct (map j_id (sys_awaiting s))"
      "set (map j_id (sys_awaiting s)) \<subseteq> set (map j_id (jobs (sys_db s)))"
      and pr: "\<forall>x\<in>set (jobs (sys_db s)).
         j_id x \<in> set (map j_id (sys_awaiting s)) \<longrightarrow> j_status x = Processing"
      unfolding awaitingInv_def by blast+
    from fresh d(3) i have nw: "j_id j \<notin> set (map j_id (sys_awaiting s))" by blast
    have b1: "distinct (map j_id (jobs d'))" unfolding e using d(1) fresh i by simp
    have b2: "distinct (map j_id (j # sys_awaiting s))" using d(2) nw by simp
    have b3: "set (map j_id (j # sys_awaiting s)) \<subseteq> set (map j_id (jobs d'))"
      unfolding e using d(3) by auto
    have b4: "j_status x = Processing"
      if "x \<in> set (jobs d')" "j_id x \<in> set (map j_id (j # sys_awaiting s))" for x
    proof (cases "x = j")
      case True with p show ?thesis by simp
    next
      case False
      with that(1) have xm: "x \<in> set (jobs (sys_db s))" unfolding e by simp
      then have "j_id x \<in> set (map j_id (jobs (sys_db s)))" by simp
      with fresh i have "j_id x \<noteq> j_id j" by metis
      with that(2) have "j_id x \<in> set (map j_id (sys_awaiting s))" by simp
      with pr xm show ?thesis by blast
    qed
    show ?thesis unfolding awaitingInv_def using b1 b2 b3 b4 by simp
  qed
  ultimately show ?thesis by (simp add: e)
qed

lemma settle_step:
  assumes inv: "awaitingInv s"
    and j: "j \<in> set (sys_awaiting s)"
    and b: "extractBackground F now j p (jobs (sys_db s)) = Some js'"
  shows "awaitingInv \<lparr>sys_db = (sys_db s)\<lparr>jobs := js'\<rparr>, sys_awaiting = remove1 j (sys_awaiting s)\<rparr>
    \<and> jobsTransition (jobs (sys_db s)) js'"
proof -
  let ?js = "jobs (sys_db s)"
  let ?aw = "sys_awaiting s"
  from b obtain out where e: "js' = continuation F now j out ?js"
    by (auto simp: extractBackground_def split: option.splits)
  from inv have d: "distinct (map j_id ?js)" "distinct (map j_id ?aw)"
    "set (map j_id ?aw) \<subseteq> set (map j_id ?js)"
    and pr: "\<forall>x\<in>set ?js. j_id x \<in> set (map j_id ?aw) \<longrightarrow> j_status x = Processing"
    unfolding awaitingInv_def by blast+
  from j have "j_id j \<in> set (map j_id ?aw)" by simp
  with pr have "\<forall>x\<in>set ?js. j_id x = j_id j \<longrightarrow> j_status x = Processing" by metis
  from continuation_props[OF this, of F now out] have
    tr: "jobsTransition ?js js'" and ids: "map j_id js' = map j_id ?js"
    and oth: "\<forall>x\<in>set js'. j_id x \<noteq> j_id j \<longrightarrow> x \<in> set ?js"
    unfolding e by blast+
  have sub: "set (remove1 j ?aw) \<subseteq> set ?aw" by (rule set_remove1_subset)
  have a1: "distinct (map j_id js')" using d(1) ids by simp
  have a2: "distinct (map j_id (remove1 j ?aw))" using d(2) by (rule distinct_map_remove1)
  have a3: "set (map j_id (remove1 j ?aw)) \<subseteq> set (map j_id js')"
    unfolding ids using sub d(3) by auto
  have a4: "j_status x = Processing"
    if "x \<in> set js'" "j_id x \<in> set (map j_id (remove1 j ?aw))" for x
  proof -
    from removed_id_gone[OF d(2) j] that(2) have "j_id x \<noteq> j_id j" by metis
    with oth that(1) have "x \<in> set ?js" by blast
    moreover from that(2) sub have "j_id x \<in> set (map j_id ?aw)" by auto
    ultimately show ?thesis using pr by blast
  qed
  have "awaitingInv \<lparr>sys_db = (sys_db s)\<lparr>jobs := js'\<rparr>, sys_awaiting = remove1 j ?aw\<rparr>"
    unfolding awaitingInv_def using a1 a2 a3 a4 by simp
  with tr show ?thesis by blast
qed

lemma step_props:
  assumes "awaitingInv s" and "step s s'"
  shows "awaitingInv s' \<and> jobsTransition (jobs (sys_db s)) (jobs (sys_db s'))"
  using assms(2,1)
proof (cases rule: step.cases)
  case (step_start fileOid jobOid now u fl sid j d')
  with start_step[OF assms(1) step_start(2,3)] show ?thesis by simp
next
  case (step_settle j F now p js')
  with settle_step[OF assms(1) step_settle(2,3)] show ?thesis by simp
next
  case (step_label now u jid cid l r d')
  from labelCluster_jobs[of "sys_db s" now u jid cid l] assms(1) step_label(2)
  have "jobs d' = jobs (sys_db s)
      \<or> (\<exists>j j'. findJobById (jobs (sys_db s)) jid = Some j \<and> j_id j' = j_id j
            \<and> j_status j' = j_status j \<and> frozenPart j' = frozenPart j
            \<and> jobs d' = saveJob j' (jobs (sys_db s)))"
    by (simp add: awaitingInv_def)
  from quiet_step[OF assms(1) this] step_label(1) show ?thesis by simp
next
  case (step_completion F n now u jid r d' n')
  from complete_jobs[of F "sys_db s" n now u jid] step_completion(2)
  have "jobs d' = jobs (sys_db s)
      \<or> (\<exists>j j'. findJobById (jobs (sys_db s)) jid = Some j \<and> j_id j' = j_id j
            \<and> j_status j' = j_status j \<and> frozenPart j' = frozenPart j
            \<and> jobs d' = saveJob j' (jobs (sys_db s)))"
    by simp
  from quiet_step[OF assms(1) this] step_completion(1) show ?thesis by simp
next
  case (step_propose now u fid l r d')
  from proposeFaceLabel_jobs[of "sys_db s" now u fid l] step_propose(2)
  have "jobs d' = jobs (sys_db s)" by simp
  then have "jobs d' = jobs (sys_db s)
      \<or> (\<exists>j j'. findJobById (jobs (sys_db s)) 0 = Some j \<and> j_id j' = j_id j
            \<and> j_status j' = j_status j \<and> frozenPart j' = frozenPart j
            \<and> jobs d' = saveJob j' (jobs (sys_db s)))" by simp
  from quiet_step[OF assms(1) this] step_propose(1) show ?thesis by simp
next
  case (step_verify F fresh now u fid rq r d')
  from verifyFace_jobs[of F "sys_db s" fresh now u fid rq] step_verify(2)
  have "jobs d' = jobs (sys_db s)" by simp
  then have "jobs d' = jobs (sys_db s)
      \<or> (\<exists>j j'. findJobById (jobs (sys_db s)) 0 = Some j \<and> j_id j' = j_id j
            \<and> j_status j' = j_status j \<and> frozenPart j' = frozenPart j
            \<and> jobs d' = saveJob j' (jobs (sys_db s)))" by simp
  from quiet_step[OF assms(1) this] step_verify(1) show ?thesis by simp
qed

lemma reachable_inv: "reachable s \<Longrightarrow> awaitingInv s"
proof (induction rule: reachable.induct)
  case (reach_init s)
  then show ?case by (simp add: awaitingInv_def)
next
  case (reach_step s s')
  with step_props[of s s'] show ?case by blast
qed



lemmas extract_defs = extractBackground_def validateFaceUpload_def runPythonCommand_def
  continuation_def tryUpdate_def catchUpdate_def updateJob_def buildCluster_def

lemmas exExtract_defs = exWaiting_def exSettled_def exNewJob_def exProcess_def exResult_def
  exUpload_def exSystem_def

subsection \<open>The life of an extraction job\<close>

text \<open>
  Claim C6 as stated, refuted in its second half: \<open>exJob\<close> is \<^verbatim>\<open>completed\<close>, an admin
  labels its cluster, and the stored job's \<^verbatim>\<open>updatedAt\<close> changes, a field that is
  neither a label field nor \<^verbatim>\<open>isLabeled\<close>.
\<close>

theorem terminal_job_timestamp_counterexample:
  "j_status exJob = Completed
   \<and> findJobById (jobs exDb) 21 = Some exJob
   \<and> \<not> isl (fst (labelCluster exDb 5 exAdmin 21 ''0'' (Some ''Bob'')))
   \<and> j_updatedAt (the (findJobById
        (jobs (snd (labelCluster exDb 5 exAdmin 21 ''0'' (Some ''Bob'')))) 21))
      \<noteq> j_updatedAt exJob"
  by (simp add: ex_defs labelCluster_def findJobById_def saveJob_def upsertProposal_def Let_def)

text \<open>
  Claim C6, amended: in every step of the server from a reachable state, a job that
  is created starts in \<^verbatim>\<open>processing\<close>, the status of a stored job stays as it is or
  goes from \<^verbatim>\<open>processing\<close> to \<^verbatim>\<open>completed\<close> or \<^verbatim>\<open>failed\<close>, and a job that was in a terminal
  state keeps every field except the proposed and selected labels of its clusters,
  \<^verbatim>\<open>isLabeled\<close> and the \<^verbatim>\<open>updatedAt\<close> timestamp.
\<close>

theorem job_status_transitions:
  assumes "reachable s" and "step s s'"
  shows "jobsTransition (jobs (sys_db s)) (jobs (sys_db s'))"
  using step_props[OF reachable_inv[OF assms(1)] assms(2)] by blast

text \<open>
  Claim C6, amended, on a run: a video is uploaded to \<open>exSystem\<close>, and then the
  provider's result arrives; the new job goes from \<^verbatim>\<open>processing\<close> to \<^verbatim>\<open>completed\<close>.
\<close>

theorem job_status_transitions_witness:
  "reachable exWaiting \<and> step exWaiting exSettled
   \<and> jobsTransition (jobs (sys_db exWaiting)) (jobs (sys_db exSettled))
   \<and> map j_status (jobs (sys_db exWaiting)) = [Completed, Processing]
   \<and> map j_status (jobs (sys_db exSettled)) = [Completed, Completed]"
proof -
  have r0: "reachable exSystem"
    by (rule reach_init) (simp_all add: exSystem_def ex_defs)
  have "startJob (sys_db exSystem) 40 41 9 exUploader (Some exUpload) None
        = (Inr exNewJob, exDb\<lparr>jobs := [exJob, exNewJob]\<rparr>)"
    by (simp add: startJob_def exExtract_defs ex_defs Let_def)
  moreover have "41 \<notin> set (map j_id (jobs (sys_db exSystem)))"
    by (simp add: exSystem_def ex_defs)
  ultimately have "step exSystem
      \<lparr>sys_db = exDb\<lparr>jobs := [exJob, exNewJob]\<rparr>, sys_awaiting = exNewJob # sys_awaiting exSystem\<rparr>"
    by (rule step_start)
  then have s1: "step exSystem exWaiting" by (simp add: exWaiting_def exSystem_def)
  from reach_step[OF r0 s1] have r1: "reachable exWaiting" .
  have m: "exNewJob \<in> set (sys_awaiting exWaiting)" by (simp add: exWaiting_def)
  have b: "extractBackground noFault 12 exNewJob (Some exProcess) (jobs (sys_db exWaiting))
      = Some (the (extractBackground noFault 12 exNewJob (Some exProcess) (jobs (sys_db exWaiting))))"
    by (simp add: extractBackground_def validateFaceUpload_def runPythonCommand_def exProcess_def)
  from step_settle[OF m b] have s2: "step exWaiting exSettled"
    by (simp add: exSettled_def exWaiting_def)
  have st: "map j_status (jobs (sys_db exWaiting)) = [Completed, Processing]"
    by (simp add: exWaiting_def exNewJob_def ex_defs)
  have st': "map j_status (jobs (sys_db exSettled)) = [Completed, Completed]"
    by (simp add: extract_defs exExtract_defs ex_defs noFault_def)
  from job_status_transitions[OF r1 s2] r1 s2 st st' show ?thesis by simp
qed

subsection \<open>A provider call that does not return\<close>




lemmas regex_defs = matches_def emailRegex_def dottedWords_def plus1_def opt_def wordChar_def

subsection \<open>Registration with a role\<close>




lemma ex_email_bad: "\<not> matches emailRegex ''eve@x''"
  by (simp add: regex_defs)


end
